theory Spec2Isabelle
  imports Complex_Main "HOL-Library.Sublist"
begin

section \<open>Python values used by pgls\<close>

text \<open>
  The exceptions that can travel through \<^verbatim>\<open>pgls/__init__.py\<close>. The first four are
  raised by the Python runtime or by the module itself; \<open>InsufficientPrivilegeError\<close> is the
  one asyncpg exception the module names, \<open>PostgresError\<close> stands for every other failure
  of the database client (unreachable server, rejected credentials, failed query).
\<close>

datatype error =
    ZeroDivisionError
  | OverflowError
  | UnboundLocalError
  | NotImplementedError
  | InsufficientPrivilegeError
  | PostgresError

subsection \<open>\<^verbatim>\<open>str(int)\<close>\<close>

definition digit_char :: "nat \<Rightarrow> char" where
  "digit_char d = ''0123456789'' ! d"

fun str_nat :: "nat \<Rightarrow> string" where
  "str_nat n = (if n < 10 then [digit_char n] else str_nat (n div 10) @ [digit_char (n mod 10)])"

declare str_nat.simps [simp del]

definition str_int :: "int \<Rightarrow> string" where
  "str_int i = (if i < 0 then CHR ''-'' # str_nat (nat (- i)) else str_nat (nat i))"

subsection \<open>\<^verbatim>\<open>int / int\<close> and \<^verbatim>\<open>round(float)\<close>\<close>

text \<open>
  In Python 3 the operator \<^verbatim>\<open>/\<close> on two ints is true division: the result is the
  binary64 float nearest to the exact quotient (ties to the even significand),
  \<^verbatim>\<open>ZeroDivisionError\<close> for a zero divisor and \<^verbatim>\<open>OverflowError\<close> when the quotient is
  too large for a float. A finite float is a rational number, so the model computes with
  \<open>rat\<close>: \<open>round_binary64\<close> rounds a positive rational to 53 significant bits.
  \<^verbatim>\<open>round(x)\<close> with one argument returns the int nearest to the float, ties to even.
\<close>

definition round_half_even :: "rat \<Rightarrow> int" where
  "round_half_even x =
     (let f = \<lfloor>x\<rfloor>; d = x - of_int f
      in if d < 1 / 2 then f else if 1 / 2 < d then f + 1 else if even f then f else f + 1)"

fun bit_length :: "nat \<Rightarrow> nat" where
  "bit_length n = (if n = 0 then 0 else Suc (bit_length (n div 2)))"

declare bit_length.simps [simp del]

definition pow2 :: "int \<Rightarrow> rat" where
  "pow2 e = (if 0 \<le> e then 2 ^ nat e else 1 / 2 ^ nat (- e))"

definition float_exponent :: "rat \<Rightarrow> int" where
  \<comment> \<open>the \<open>e\<close> with \<open>2 ^ e \<le> x < 2 ^ (e + 1)\<close>, for \<open>0 < x\<close>\<close>
  "float_exponent x =
     (if 1 \<le> x then int (bit_length (nat \<lfloor>x\<rfloor>)) - 1
      else - int (bit_length (nat (\<lceil>1 / x\<rceil> - 1))))"

definition round_binary64 :: "rat \<Rightarrow> rat" where
  \<comment> \<open>nearest float to \<open>x\<close>, for \<open>0 < x\<close>; below \<open>2 ^ -1022\<close> the spacing stays \<open>2 ^ -1074\<close>\<close>
  "round_binary64 x =
     (let s = max (float_exponent x) (- 1022) - 52
      in of_int (round_half_even (x / pow2 s)) * pow2 s)"

definition py_truediv :: "int \<Rightarrow> int \<Rightarrow> error + rat" where
  "py_truediv a b =
     (if b = 0 then Inl ZeroDivisionError
      else let q = of_int a / of_int b;
               r = (if q = 0 then 0 else sgn q * round_binary64 \<bar>q\<bar>)
           in if 2 ^ 1024 \<le> \<bar>r\<bar> then Inl OverflowError else Inr r)"

definition py_round :: "rat \<Rightarrow> int" where
  "py_round x = round_half_even x"

section \<open>The unit formatters\<close>

record Size =
  bytes :: int

definition Size_human :: "Size \<Rightarrow> error + string" where
  "Size_human self =
     (let (power, suffix) =
            (if bytes self \<ge> 1024 ^ 4 then (4 :: nat, ''TiB'')
             else if bytes self \<ge> 1024 ^ 3 then (3, ''GiB'')
             else if bytes self \<ge> 1024 ^ 2 then (2, ''MiB'')
             else if bytes self \<ge> 1024 ^ 1 then (1, ''KiB'')
             else (0, ''bytes''))
      in case py_truediv (bytes self) (1024 ^ power) of
           Inl e \<Rightarrow> Inl e
         | Inr q \<Rightarrow> Inr (str_int (py_round q) @ '' '' @ suffix))"

record Count =
  count :: int

definition Count_human :: "Count \<Rightarrow> error + string" where
  "Count_human self =
     (let (power, suffix) =
            (if count self \<ge> 1000 ^ 3 then (3 :: nat, ''kkk rows'')
             else if count self \<ge> 1000 ^ 2 then (2, ''kk rows'')
             else if count self \<ge> 1000 ^ 1 then (1, ''k rows'')
             else (0, '' rows''))
      in case py_truediv (count self) (1000 ^ power) of
           Inl e \<Rightarrow> Inl e
         | Inr q \<Rightarrow> Inr (str_int (py_round q) @ suffix))"

section \<open>Display records\<close>

subsection \<open>Terminal colours\<close>

text \<open>
  \<^verbatim>\<open>colorama.Fore\<close> is a table of ANSI escape sequences: the escape character \<open>0x1B\<close>,
  \<open>[\<close>, a colour number and \<open>m\<close>. The module never calls \<^verbatim>\<open>colorama.init\<close>, so the
  sequences reach standard output unchanged. Strings are byte strings here; the bullet
  \<^verbatim>\<open>U+2022\<close> that starts every line is its three UTF-8 bytes.
\<close>

definition F_RED :: string where "F_RED = CHR 0x1B # ''[31m''"
definition F_GREEN :: string where "F_GREEN = CHR 0x1B # ''[32m''"
definition F_BLUE :: string where "F_BLUE = CHR 0x1B # ''[34m''"
definition F_CYAN :: string where "F_CYAN = CHR 0x1B # ''[36m''"
definition F_RESET :: string where "F_RESET = CHR 0x1B # ''[39m''"
definition F_LIGHTWHITE_EX :: string where "F_LIGHTWHITE_EX = CHR 0x1B # ''[97m''"

definition bullet :: string where "bullet = [CHR 0xE2, CHR 0x80, CHR 0xA2]"

definition indent :: "nat \<Rightarrow> string" where
  \<comment> \<open>\<^verbatim>\<open>"  " * ident\<close>\<close>
  "indent ident = concat (replicate ident ''  '')"

definition truthy :: "string option \<Rightarrow> bool" where
  \<comment> \<open>\<^verbatim>\<open>if self.description:\<close> holds for a string that is neither \<^verbatim>\<open>None\<close> nor empty\<close>
  "truthy d = (case d of None \<Rightarrow> False | Some s \<Rightarrow> s \<noteq> [])"

subsection \<open>Field, Table, Database\<close>

text \<open>
  The dataclasses share attribute names (\<^verbatim>\<open>name\<close>, \<^verbatim>\<open>description\<close>, \<^verbatim>\<open>size\<close>), so each
  record's fields carry the class name as a prefix: \<open>Table_name\<close> is \<^verbatim>\<open>Table.name\<close>.
\<close>

record Field =
  Field_name :: string
  Field_description :: "string option"
  Field_type :: string
  Field_default :: "string option"
  Field_nullable :: bool

record Table =
  Table_schema :: string
  Table_name :: string
  Table_description :: "string option"
  Table_size :: Size
  Table_rows :: Count
  Table_fields :: "Field list"

record Database =
  Database_name :: string
  Database_description :: "string option"
  Database_owner :: string
  Database_size :: Size
  Database_tables :: "Table list"

section \<open>The world outside: server, connections, standard output\<close>

text \<open>
  Everything the program does to the outside is an event, appended to a trace in the order
  it happens: a connection is opened (or the attempt fails), a query is sent over a
  connection, a connection is closed, the generator yields a \<open>Database\<close>, \<^verbatim>\<open>print\<close>
  writes a line. The SQL text of a query is not modelled; a query is identified by its
  kind and, where the source builds one, its \<^verbatim>\<open>order by\<close> expression.
\<close>

datatype order_by = ByName | BySize

datatype query = DatabasesQuery order_by | TablesQuery order_by | ColumnsQuery

datatype event =
    Connect string nat
  | ConnectFailed string
  | Fetch nat query
  | Close nat
  | Yield Database
  | Print string

record database_row =
  db_name :: string
  db_owner :: string
  db_description :: "string option"
  db_size :: int

record table_row =
  tbl_schema :: string
  tbl_name :: string
  tbl_description :: "string option"
  tbl_size :: int
  tbl_rows :: int

record column_row =
  col_schema_name :: string
  col_table_name :: string
  col_name :: string
  col_type :: string
  col_default :: "string option"
  col_nullable :: bool

text \<open>
  The server answers: whether a DSN can be connected to, and what each of the three
  queries returns on a connection to that DSN (rows, or the exception asyncpg raises).
\<close>

record server =
  connect_error :: "string \<Rightarrow> error option"
  databases_result :: "string \<Rightarrow> order_by \<Rightarrow> error + database_row list"
  tables_result :: "string \<Rightarrow> order_by \<Rightarrow> error + table_row list"
  columns_result :: "string \<Rightarrow> error + column_row list"

record connection =
  conn_id :: nat
  conn_dsn :: string

fun is_Connect :: "event \<Rightarrow> bool" where
  "is_Connect (Connect dsn c) = True"
| "is_Connect ev = False"

definition connect :: "server \<Rightarrow> string \<Rightarrow> event list \<Rightarrow> (error + connection) \<times> event list" where
  \<comment> \<open>\<^verbatim>\<open>await asyncpg.connect(dsn)\<close>; connections are numbered in the order they are opened\<close>
  "connect srv dsn tr =
     (case connect_error srv dsn of
        Some e \<Rightarrow> (Inl e, tr @ [ConnectFailed dsn])
      | None \<Rightarrow>
          let c = length (filter is_Connect tr)
          in (Inr \<lparr>conn_id = c, conn_dsn = dsn\<rparr>, tr @ [Connect dsn c]))"

definition close :: "connection \<Rightarrow> event list \<Rightarrow> event list" where
  \<comment> \<open>\<^verbatim>\<open>await connection.close()\<close>\<close>
  "close c tr = tr @ [Close (conn_id c)]"

fun opened :: "event \<Rightarrow> nat list" where
  "opened (Connect dsn c) = [c]"
| "opened ev = []"

definition open_connections :: "event list \<Rightarrow> nat list" where
  \<comment> \<open>the connections a trace has opened and not closed\<close>
  "open_connections tr = filter (\<lambda>c. Close c \<notin> set tr) (concat (map opened tr))"

definition print :: "string \<Rightarrow> event list \<Rightarrow> event list" where
  \<comment> \<open>\<^verbatim>\<open>print(..., sep="")\<close>: one line, the arguments joined without a separator\<close>
  "print line tr = tr @ [Print line]"

section \<open>Rendering\<close>

definition Field_display :: "Field \<Rightarrow> nat \<Rightarrow> event list \<Rightarrow> event list" where
  "Field_display self ident tr =
     (let nullable = (if Field_nullable self then '' '' @ F_RED @ ''(nullable)'' @ F_RESET else [])
      in print (indent ident
                @ (bullet @ '' '' @ F_GREEN @ Field_name self @ F_RESET @ '' '')
                @ (''| '' @ Field_type self)
                @ nullable) tr)"

definition Table_display :: "Table \<Rightarrow> nat \<Rightarrow> event list \<Rightarrow> error option \<times> event list" where
  "Table_display self ident tr =
     (case Size_human (Table_size self) of
        Inl e \<Rightarrow> (Some e, tr)
      | Inr size_human \<Rightarrow>
     (case Count_human (Table_rows self) of
        Inl e \<Rightarrow> (Some e, tr)
      | Inr rows_human \<Rightarrow>
          let tr1 = print (indent ident
                           @ (bullet @ '' '' @ F_BLUE @ Table_schema self @ ''.'' @ Table_name self
                              @ F_RESET @ '' '')
                           @ F_LIGHTWHITE_EX
                           @ (''('' @ size_human @ '', '' @ rows_human @ '')'')
                           @ F_RESET
                           @ ('' '' @ F_LIGHTWHITE_EX @ ''(table)'' @ F_RESET)) tr;
              tr2 = (if truthy (Table_description self)
                     then print [] (print (indent (ident + 1) @ F_LIGHTWHITE_EX
                                           @ the (Table_description self) @ F_RESET) tr1)
                     else tr1)
          in (None, foldl (\<lambda>t field. Field_display field (ident + 1) t) tr2 (Table_fields self))))"

fun display_tables :: "Table list \<Rightarrow> nat \<Rightarrow> event list \<Rightarrow> error option \<times> event list" where
  \<comment> \<open>\<^verbatim>\<open>for table in self.tables: table.display(ident=ident + 1)\<close>, called with \<open>ident + 1\<close>\<close>
  "display_tables [] ident tr = (None, tr)"
| "display_tables (table # tables) ident tr =
     (case Table_display table ident tr of
        (Some e, tr1) \<Rightarrow> (Some e, tr1)
      | (None, tr1) \<Rightarrow> display_tables tables ident tr1)"

definition Database_display :: "Database \<Rightarrow> nat \<Rightarrow> event list \<Rightarrow> error option \<times> event list" where
  "Database_display self ident tr =
     (case Size_human (Database_size self) of
        Inl e \<Rightarrow> (Some e, tr)
      | Inr size_human \<Rightarrow>
          let tr1 = print (indent ident
                           @ (bullet @ '' '' @ F_CYAN @ Database_name self @ F_RESET @ '' '')
                           @ F_LIGHTWHITE_EX
                           @ (''('' @ size_human @ '')'')
                           @ F_RESET
                           @ ('' '' @ F_LIGHTWHITE_EX @ ''(database)'' @ F_RESET)) tr;
              tr2 = (if truthy (Database_description self)
                     then print [] (print (indent (ident + 1) @ F_LIGHTWHITE_EX
                                           @ the (Database_description self) @ F_RESET) tr1)
                     else tr1)
          in display_tables (Database_tables self) (ident + 1) tr2)"

section \<open>Fetching\<close>

definition fetch_fields :: "column_row list \<Rightarrow> string \<Rightarrow> string \<Rightarrow> Field list" where
  "fetch_fields prefetched_fields schema_name table_name =
     (let data = filter (\<lambda>row. list_all (\<lambda>b. b)
                                  [col_schema_name row = schema_name,
                                   col_table_name row = table_name])
                        prefetched_fields
      in foldl (\<lambda>fields row.
                  fields @ [\<lparr>Field_name = col_name row,
                             Field_description = None,
                             Field_type = col_type row,
                             Field_default = col_default row,
                             Field_nullable = col_nullable row\<rparr>])
               [] data)"

definition order_by_expression :: "string \<Rightarrow> error + order_by" where
  \<comment> \<open>the \<^verbatim>\<open>if sort == "name" ... elif sort == "size" ... else: raise\<close> that opens both fetchers\<close>
  "order_by_expression sort_by =
     (if sort_by = ''name'' then Inr ByName
      else if sort_by = ''size'' then Inr BySize
      else Inl NotImplementedError)"

definition fetch_tables ::
  "server \<Rightarrow> string \<Rightarrow> string \<Rightarrow> string \<Rightarrow> bool \<Rightarrow> event list
     \<Rightarrow> (error + Table list) \<times> event list" where
  "fetch_tables srv base_dsn database_name sort_by show_fields tr =
     (case order_by_expression sort_by of
        Inl e \<Rightarrow> (Inl e, tr)
      | Inr order \<Rightarrow>
     (case connect srv (base_dsn @ ''/'' @ database_name) tr of
        (Inl e, tr1) \<Rightarrow> (Inl e, tr1)
      | (Inr connection, tr1) \<Rightarrow>
     (case (tables_result srv (conn_dsn connection) order,
            tr1 @ [Fetch (conn_id connection) (TablesQuery order)]) of
        (Inl e, tr2) \<Rightarrow> (Inl e, tr2)
      | (Inr data, tr2) \<Rightarrow>
     (case (if show_fields
            then (columns_result srv (conn_dsn connection),
                  tr2 @ [Fetch (conn_id connection) ColumnsQuery])
            else (Inr [], tr2)) of
        (Inl e, tr3) \<Rightarrow> (Inl e, tr3)
      | (Inr fields_data, tr3) \<Rightarrow>
          let tables =
                foldl (\<lambda>tables row.
                         tables @ [\<lparr>Table_schema = tbl_schema row,
                                    Table_name = tbl_name row,
                                    Table_description = tbl_description row,
                                    Table_size = \<lparr>bytes = tbl_size row\<rparr>,
                                    Table_rows = \<lparr>count = tbl_rows row\<rparr>,
                                    Table_fields =
                                      fetch_fields fields_data (tbl_schema row) (tbl_name row)\<rparr>])
                      [] data
          in (Inr tables, close connection tr3)))))"

definition Database_of_row :: "database_row \<Rightarrow> Table list \<Rightarrow> Database" where
  \<comment> \<open>the \<^verbatim>\<open>Database(name=row["name"], ..., tables=tables)\<close> that is yielded\<close>
  "Database_of_row row tables =
     \<lparr>Database_name = db_name row,
      Database_description = db_description row,
      Database_owner = db_owner row,
      Database_size = \<lparr>bytes = db_size row\<rparr>,
      Database_tables = tables\<rparr>"

text \<open>
  \<open>fetch_databases\<close> is an async generator. Its \<^verbatim>\<open>for\<close> loop is the recursion below:
  \<open>body\<close> is what the consumer does with each yielded \<open>Database\<close> before the generator is
  resumed, and an exception in the body ends the run without resuming it. The local
  variable \<^verbatim>\<open>tables\<close> is \<open>None\<close> while it is unbound; it survives from one iteration to
  the next, as a Python local does.
\<close>

fun fetch_databases_loop ::
  "server \<Rightarrow> string \<Rightarrow> string \<Rightarrow> bool \<Rightarrow> bool
     \<Rightarrow> (Database \<Rightarrow> event list \<Rightarrow> error option \<times> event list)
     \<Rightarrow> database_row list \<Rightarrow> Table list option \<Rightarrow> event list
     \<Rightarrow> error option \<times> event list" where
  "fetch_databases_loop srv base_dsn sort_by show_tables show_fields body [] tables tr = (None, tr)"
| "fetch_databases_loop srv base_dsn sort_by show_tables show_fields body (row # data) tables tr =
     (case (if show_tables
            then (case fetch_tables srv base_dsn (db_name row) sort_by show_fields tr of
                    (Inr fetched, tr1) \<Rightarrow> (Inr (Some fetched), tr1)
                  | (Inl e, tr1) \<Rightarrow>
                      if e = InsufficientPrivilegeError then (Inr tables, tr1) else (Inl e, tr1))
            else (Inr (Some []), tr)) of
        (Inl e, tr1) \<Rightarrow> (Some e, tr1)
      | (Inr None, tr1) \<Rightarrow> (Some UnboundLocalError, tr1)
      | (Inr (Some tables1), tr1) \<Rightarrow>
          let database = Database_of_row row tables1
          in (case body database (tr1 @ [Yield database]) of
                (Some e, tr2) \<Rightarrow> (Some e, tr2)
              | (None, tr2) \<Rightarrow>
                  fetch_databases_loop srv base_dsn sort_by show_tables show_fields body
                    data (Some tables1) tr2))"

definition fetch_databases ::
  "server \<Rightarrow> string \<Rightarrow> string \<Rightarrow> bool \<Rightarrow> bool
     \<Rightarrow> (Database \<Rightarrow> event list \<Rightarrow> error option \<times> event list)
     \<Rightarrow> event list \<Rightarrow> error option \<times> event list" where
  "fetch_databases srv base_dsn sort_by show_tables show_fields body tr =
     (case order_by_expression sort_by of
        Inl e \<Rightarrow> (Some e, tr)
      | Inr order \<Rightarrow>
     (case connect srv (base_dsn @ ''/postgres'') tr of
        (Inl e, tr1) \<Rightarrow> (Some e, tr1)
      | (Inr connection, tr1) \<Rightarrow>
     (case (databases_result srv (conn_dsn connection) order,
            tr1 @ [Fetch (conn_id connection) (DatabasesQuery order)]) of
        (Inl e, tr2) \<Rightarrow> (Some e, tr2)
      | (Inr data, tr2) \<Rightarrow>
     (case fetch_databases_loop srv base_dsn sort_by show_tables show_fields body data None tr2 of
        (Some e, tr3) \<Rightarrow> (Some e, tr3)
      | (None, tr3) \<Rightarrow> (None, close connection tr3)))))"

definition fetch_and_display_all ::
  "server \<Rightarrow> string \<Rightarrow> string \<Rightarrow> string \<Rightarrow> string \<Rightarrow> string \<Rightarrow> string
     \<Rightarrow> event list \<Rightarrow> error option \<times> event list" where
  "fetch_and_display_all srv dsn sort_by tables indexes views fields' tr =
     fetch_databases srv dsn sort_by (tables = ''show'') (fields' = ''show'')
       (\<lambda>database. Database_display database 0) tr"

text \<open>
  \<open>main\<close> receives the keyword arguments click has parsed from the command line: the
  value of \<^verbatim>\<open>--sort\<close>, the flag value (\<^verbatim>\<open>show\<close> or \<^verbatim>\<open>hide\<close>) of each of the four
  show/hide pairs, and the DSN. The run starts with an empty trace.
\<close>

record kwargs =
  kw_sort :: string
  kw_tables :: string
  kw_fields :: string
  kw_views :: string
  kw_indexes :: string
  kw_dsn :: string

definition main :: "server \<Rightarrow> kwargs \<Rightarrow> error option \<times> event list" where
  "main srv kw =
     fetch_and_display_all srv (kw_dsn kw) (kw_sort kw) (kw_tables kw) (kw_indexes kw)
       (kw_views kw) (kw_fields kw) []"

section \<open>What a run shows\<close>

fun yield_of :: "event \<Rightarrow> Database list" where
  "yield_of (Yield database) = [database]"
| "yield_of ev = []"

definition yielded :: "event list \<Rightarrow> Database list" where
  \<comment> \<open>the databases the generator has produced, in order\<close>
  "yielded tr = concat (map yield_of tr)"

fun print_of :: "event \<Rightarrow> string list" where
  "print_of (Print line) = [line]"
| "print_of ev = []"

definition printed :: "event list \<Rightarrow> string list" where
  \<comment> \<open>the lines written to standard output, in order\<close>
  "printed tr = concat (map print_of tr)"

section \<open>The specification's formatter\<close>

text \<open>
  The specification describes both formatters by a list of thresholds: pick the first
  threshold the value meets or exceeds, else use the raw value; divide by it and round to
  the nearest integer. These definitions follow its words; the formatters above follow
  the source.
\<close>

definition first_threshold ::
  "(string \<times> int) list \<Rightarrow> string \<times> int \<Rightarrow> int \<Rightarrow> string \<times> int" where
  "first_threshold thresholds raw n =
     (case filter (\<lambda>(unit, t). t \<le> n) thresholds of [] \<Rightarrow> raw | ut # _ \<Rightarrow> ut)"

definition size_thresholds :: "(string \<times> int) list" where
  "size_thresholds =
     [(''TiB'', 1024 ^ 4), (''GiB'', 1024 ^ 3), (''MiB'', 1024 ^ 2), (''KiB'', 1024 ^ 1)]"

definition count_thresholds :: "(string \<times> int) list" where
  "count_thresholds = [(''kkk rows'', 1000 ^ 3), (''kk rows'', 1000 ^ 2), (''k rows'', 1000 ^ 1)]"

definition nearest_half_even :: "rat \<Rightarrow> int \<Rightarrow> bool" where
  \<comment> \<open>\<open>v\<close> is the integer nearest to \<open>x\<close>, the even one of the two when \<open>x\<close> lies halfway\<close>
  "nearest_half_even x v \<longleftrightarrow>
     \<bar>of_int v - x\<bar> \<le> 1 / 2 \<and> (\<bar>of_int v - x\<bar> = 1 / 2 \<longrightarrow> even v)"

section \<open>Sample servers\<close>

definition sample_kwargs :: kwargs where
  "sample_kwargs =
     \<lparr>kw_sort = ''name'', kw_tables = ''show'', kw_fields = ''show'',
      kw_views = ''show'', kw_indexes = ''show'', kw_dsn = ''pg''\<rparr>"

definition orders_table :: table_row where
  "orders_table =
     \<lparr>tbl_schema = ''public'', tbl_name = ''orders'', tbl_description = None,
      tbl_size = 8192, tbl_rows = 500\<rparr>"

definition orders_columns :: "column_row list" where
  "orders_columns =
     [\<lparr>col_schema_name = ''public'', col_table_name = ''orders'', col_name = ''id'',
       col_type = ''integer'', col_default = None, col_nullable = False\<rparr>,
      \<lparr>col_schema_name = ''public'', col_table_name = ''Orders'', col_name = ''legacy'',
       col_type = ''text'', col_default = None, col_nullable = True\<rparr>,
      \<lparr>col_schema_name = ''public'', col_table_name = ''orders'', col_name = ''note'',
       col_type = ''text'', col_default = None, col_nullable = True\<rparr>]"

definition shop_row :: database_row where
  "shop_row = \<lparr>db_name = ''shop'', db_owner = ''alice'', db_description = None, db_size = 8192\<rparr>"

definition vault_row :: database_row where
  "vault_row = \<lparr>db_name = ''vault'', db_owner = ''bob'', db_description = None, db_size = 1536\<rparr>"

definition denied_server :: server where
  \<comment> \<open>one database, whose tables the caller's role may not list\<close>
  "denied_server =
     \<lparr>connect_error = (\<lambda>dsn. None),
      databases_result = (\<lambda>dsn order. Inr [vault_row]),
      tables_result = (\<lambda>dsn order. Inl InsufficientPrivilegeError),
      columns_result = (\<lambda>dsn. Inr [])\<rparr>"

definition mixed_server :: server where
  \<comment> \<open>\<open>shop\<close> with one table, then \<open>vault\<close>, whose tables the caller's role may not list\<close>
  "mixed_server =
     \<lparr>connect_error = (\<lambda>dsn. None),
      databases_result = (\<lambda>dsn order. Inr [shop_row, vault_row]),
      tables_result =
        (\<lambda>dsn order. if dsn = ''pg/shop'' then Inr [orders_table]
                      else Inl InsufficientPrivilegeError),
      columns_result = (\<lambda>dsn. Inr orders_columns)\<rparr>"

definition broken_server :: server where
  \<comment> \<open>one database, whose table listing fails with another error\<close>
  "broken_server =
     \<lparr>connect_error = (\<lambda>dsn. None),
      databases_result = (\<lambda>dsn order. Inr [shop_row]),
      tables_result = (\<lambda>dsn order. Inl PostgresError),
      columns_result = (\<lambda>dsn. Inr [])\<rparr>"

section \<open>Facts about the float model\<close>

subsection \<open>Bit length and powers of two\<close>

lemma bit_length_bounds:
  "0 < n \<Longrightarrow> 2 ^ (bit_length n - 1) \<le> n \<and> n < 2 ^ bit_length n"
proof (induction n rule: bit_length.induct)
  case (1 n)
  show ?case
  proof (cases "n div 2 = 0")
    case True
    with 1(2) have "n = 1" by presburger
    then show ?thesis by (simp add: bit_length.simps)
  next
    case False
    then have pos: "0 < n div 2" by simp
    define b where "b = bit_length (n div 2)"
    from 1(1) pos 1(2) have IH: "2 ^ (b - 1) \<le> n div 2" "n div 2 < 2 ^ b"
      by (simp_all add: b_def)
    from pos have bpos: "0 < b" unfolding b_def by (simp add: bit_length.simps[of "n div 2"])
    have bl: "bit_length n = Suc b" using 1(2) by (simp add: b_def bit_length.simps[of n])
    from bpos have "(2::nat) ^ b = 2 * 2 ^ (b - 1)" by (cases b) simp_all
    with IH(1) have lo: "2 ^ b \<le> n" by presburger
    from IH(2) have "n < 2 * 2 ^ b" by presburger
    with lo bl show ?thesis by simp
  qed
qed

lemma pow2_powi: "pow2 e = 2 powi e"
  by (simp add: pow2_def power_int_def field_simps power_inverse[symmetric])

lemma pow2_pos: "0 < pow2 e"
  by (simp add: pow2_powi)

lemma pow2_nat: "pow2 (int k) = 2 ^ k"
  by (simp add: pow2_def)

lemma pow2_add: "pow2 (a + b) = pow2 a * pow2 b"
  by (simp add: pow2_powi power_int_add)

lemma pow2_diff: "pow2 (a - b) = pow2 a / pow2 b"
  by (simp add: pow2_powi power_int_diff)

lemma pow2_neg_nat: "pow2 (- int n) = 1 / 2 ^ n"
  by (cases "n = 0") (simp_all add: pow2_def)

subsection \<open>The exponent of a rational at least one\<close>

lemma float_exponent_ex:
  assumes "1 \<le> x"
  shows "\<exists>k::nat. float_exponent x = int k \<and> 2 ^ k \<le> x \<and> x < 2 ^ Suc k"
proof -
  define n where "n = nat \<lfloor>x\<rfloor>"
  from assms have fl: "1 \<le> \<lfloor>x\<rfloor>" by simp
  then have npos: "0 < n" by (simp add: n_def)
  define b where "b = bit_length n"
  from bit_length_bounds[OF npos] have lo: "2 ^ (b - 1) \<le> n" and hi: "n < 2 ^ b"
    by (simp_all add: b_def)
  from npos have bpos: "0 < b" unfolding b_def by (simp add: bit_length.simps[of n])
  have nx: "of_nat n \<le> x" using fl by (simp add: n_def)
  have xn: "x < of_nat n + 1" using fl by (simp add: n_def) linarith
  have "(2::rat) ^ (b - 1) = of_nat (2 ^ (b - 1))" by simp
  also have "\<dots> \<le> of_nat n" using lo of_nat_le_iff by blast
  finally have A: "2 ^ (b - 1) \<le> x" using nx by linarith
  from hi have "n + 1 \<le> 2 ^ b" by simp
  then have "(of_nat (n + 1) :: rat) \<le> of_nat (2 ^ b)" using of_nat_le_iff by blast
  then have "of_nat n + 1 \<le> (2::rat) ^ b" by simp
  with xn have B: "x < 2 ^ b" by linarith
  have "float_exponent x = int (b - 1)"
    using assms bpos by (simp add: float_exponent_def n_def b_def of_nat_diff)
  moreover from bpos have "Suc (b - 1) = b" by simp
  ultimately show ?thesis using A B by (intro exI[of _ "b - 1"]) simp
qed

lemma float_exponent_eq:
  assumes "2 ^ k \<le> x" "x < 2 ^ Suc k"
  shows "float_exponent x = int k"
proof -
  have "(1::rat) \<le> 2 ^ k" by simp
  with assms have "1 \<le> x" by linarith
  from float_exponent_ex[OF this] obtain j where
    j: "float_exponent x = int j" "2 ^ j \<le> x" "x < 2 ^ Suc j" by blast
  from assms(1) j(3) have "(2::rat) ^ k < 2 ^ Suc j" by linarith
  then have "k < Suc j" by (simp only: power_strict_increasing_iff[of 2])  
  moreover from j(2) assms(2) have "(2::rat) ^ j < 2 ^ Suc k" by linarith
  then have "j < Suc k" by (simp only: power_strict_increasing_iff[of 2])  
  ultimately show ?thesis using j(1) by simp
qed

subsection \<open>Rounding to an integer\<close>

lemma round_half_even_of_int: "round_half_even (of_int i) = i"
  by (simp add: round_half_even_def)

lemma round_half_even_err: "\<bar>of_int (round_half_even x) - x\<bar> \<le> 1 / 2"
  unfolding round_half_even_def Let_def
  by (auto simp: abs_if) linarith+

lemma round_half_even_mono_int:
  "of_int i \<le> x \<Longrightarrow> i \<le> round_half_even x" "x \<le> of_int i \<Longrightarrow> round_half_even x \<le> i"
  unfolding round_half_even_def Let_def
  by (auto simp: le_floor_iff) linarith+

lemma round_half_even_nearest: "nearest_half_even x (round_half_even x)"
  unfolding nearest_half_even_def round_half_even_def Let_def
  by (auto simp: abs_if) linarith+

lemma round_half_even_upper_half:
  assumes "of_int k - 1 / 2 \<le> x" "x < of_int k" "odd (k - 1)"
  shows "round_half_even x = k"
proof -
  have f: "\<lfloor>x\<rfloor> = k - 1" using assms(1,2) by (intro floor_unique) simp_all
  show ?thesis using assms unfolding round_half_even_def Let_def f by auto
qed

lemma round_half_even_near:
  assumes "of_int k - 1 / 2 < x" "x < of_int k + 1 / 2"
  shows "round_half_even x = k"
proof (cases "x < of_int k")
  case True
  have f: "\<lfloor>x\<rfloor> = k - 1" using assms(1) True by (intro floor_unique) simp_all
  show ?thesis using assms True unfolding round_half_even_def Let_def f by auto
next
  case False
  have f: "\<lfloor>x\<rfloor> = k" using assms(2) False by (intro floor_unique) simp_all
  show ?thesis using assms False unfolding round_half_even_def Let_def f by auto
qed

lemma floor_rat_numeral:
  "\<lfloor>numeral a / numeral b :: rat\<rfloor> = numeral a div numeral b"
  by (metis floor_divide_of_int_eq of_int_numeral)

lemma floor_rat_neg_numeral:
  "\<lfloor>- (numeral a / numeral b) :: rat\<rfloor> = - numeral a div numeral b"
  by (metis divide_minus_left floor_divide_of_int_eq of_int_neg_numeral of_int_numeral)

lemmas rhe_eval = round_half_even_def Let_def floor_rat_numeral floor_rat_neg_numeral

subsection \<open>Rounding to 53 bits\<close>

text \<open>
  For a rational with exponent \<open>k\<close> the float is the quotient by \<open>2 ^ (k - 52)\<close>, rounded to
  an integer and scaled back. Three consequences carry the claims: a dyadic rational with
  a numerator below \<open>2 ^ 53\<close> is its own float; the float of \<open>x\<close> differs from \<open>x\<close> by
  at most \<open>x / 2 ^ 53\<close>; and it stays between the powers of two that enclose \<open>x\<close>.
\<close>

lemma round_binary64_unfold:
  assumes "float_exponent x = int k"
  shows "round_binary64 x = of_int (round_half_even (x / pow2 (int k - 52))) * pow2 (int k - 52)"
  using assms by (simp add: round_binary64_def Let_def max_def)

lemma round_binary64_eval:
  assumes "2 ^ k \<le> x" "x < 2 ^ Suc k"
  shows "round_binary64 x = of_int (round_half_even (x / pow2 (int k - 52))) * pow2 (int k - 52)"
  by (rule round_binary64_unfold[OF float_exponent_eq[OF assms]])

lemma round_binary64_exact:
  assumes "x = of_int m / 2 ^ j" "2 ^ j \<le> m" "m < 2 ^ 53"
  shows "round_binary64 x = x"
proof -
  have "(2::rat) ^ j \<le> of_int m" using assms(2) by (metis of_int_le_iff of_int_numeral of_int_power)
  then have x1: "1 \<le> x" by (simp add: assms(1) pos_le_divide_eq)
  from float_exponent_ex[OF x1] obtain k where
    k: "float_exponent x = int k" "2 ^ k \<le> x" "x < 2 ^ Suc k" by blast
  from k(2) assms(1) have "(2::rat) ^ k * 2 ^ j \<le> of_int m" by (simp add: field_simps)
  then have "(of_int (2 ^ (k + j)) :: rat) \<le> of_int m" by (simp add: power_add)
  then have "(2::int) ^ (k + j) \<le> m" by (simp only: of_int_le_iff)
  with assms(3) have "(2::int) ^ (k + j) < 2 ^ 53" by linarith
  then have kj: "k + j < 53" by (simp only: power_strict_increasing_iff[of 2])
  define i where "i = 52 - k - j"
  have "int k - 52 = - int (i + j)" using kj by (simp add: i_def)
  then have s: "pow2 (int k - 52) = 1 / 2 ^ (i + j)"
    by (simp only: pow2_neg_nat)
  have y: "x / pow2 (int k - 52) = of_int (m * 2 ^ i)"
    by (simp add: s assms(1) power_add)
  have "round_binary64 x = of_int (m * 2 ^ i) * pow2 (int k - 52)"
    by (simp only: round_binary64_unfold[OF k(1)] y round_half_even_of_int)
  also have "\<dots> = x"
    by (simp add: s assms(1) power_add)
  finally show ?thesis .
qed

lemma round_binary64_2_53: "round_binary64 (2 ^ 53) = 2 ^ 53"
proof -
  have fe: "float_exponent (2 ^ 53) = int 53" by (rule float_exponent_eq) simp_all
  have "round_binary64 (2 ^ 53) =
      of_int (round_half_even (2 ^ 53 / pow2 (int 53 - 52))) * pow2 (int 53 - 52)"
    by (rule round_binary64_unfold[OF fe])
  also have "\<dots> = 2 ^ 53"
    by (simp add: pow2_def round_half_even_def Let_def)
  finally show ?thesis .
qed

lemma round_binary64_err:
  assumes "1 \<le> x"
  shows "\<bar>round_binary64 x - x\<bar> \<le> pow2 (float_exponent x - 53)"
proof -
  from float_exponent_ex[OF assms] obtain k where k: "float_exponent x = int k" by blast
  define s where "s = pow2 (int k - 52)"
  have spos: "0 < s" by (simp add: s_def pow2_pos)
  have "round_binary64 x - x = (of_int (round_half_even (x / s)) - x / s) * s"
    using spos by (simp add: round_binary64_unfold[OF k] s_def field_simps)
  then have "\<bar>round_binary64 x - x\<bar> = \<bar>of_int (round_half_even (x / s)) - x / s\<bar> * s"
    using spos by (simp add: abs_mult)
  also have "\<dots> \<le> (1 / 2) * s"
    using round_half_even_err[of "x / s"] spos by (intro mult_right_mono) simp_all
  also have "\<dots> = pow2 (float_exponent x - 53)"
    using pow2_diff[of "int k - 52" 1] by (simp add: k s_def pow2_def[of 1])
  finally show ?thesis .
qed

lemma round_binary64_rel_err:
  assumes "1 \<le> x"
  shows "\<bar>round_binary64 x - x\<bar> \<le> x / 2 ^ 53"
proof -
  from float_exponent_ex[OF assms] obtain k where
    k: "float_exponent x = int k" "2 ^ k \<le> x" by blast
  have "pow2 (int k - 53) = 2 ^ k / 2 ^ 53"
    using pow2_diff[of "int k" 53] by (simp add: pow2_nat pow2_def[of 53])
  also have "\<dots> \<le> x / 2 ^ 53" using k(2) by (simp add: divide_right_mono)
  finally show ?thesis using round_binary64_err[OF assms] k(1) by simp
qed

lemma round_binary64_bounds:
  assumes "2 ^ k \<le> x" "x < 2 ^ Suc k"
  shows "2 ^ k \<le> round_binary64 x" "round_binary64 x \<le> 2 ^ Suc k"
proof -
  have fe: "float_exponent x = int k" using assms by (rule float_exponent_eq)
  define s where "s = pow2 (int k - 52)"
  have spos: "0 < s" by (simp add: s_def pow2_pos)
  have s52: "s * 2 ^ 52 = 2 ^ k"
    using pow2_add[of "int k - 52" 52] by (simp add: s_def pow2_nat pow2_def[of 52])
  have rb: "round_binary64 x = of_int (round_half_even (x / s)) * s"
    by (simp add: round_binary64_unfold[OF fe] s_def)
  have "of_int (2 ^ 52) \<le> x / s" using assms(1) spos s52 by (simp add: field_simps)
  then have "2 ^ 52 \<le> round_half_even (x / s)" by (rule round_half_even_mono_int)
  then have "(of_int (2 ^ 52) :: rat) \<le> of_int (round_half_even (x / s))" by (simp only: of_int_le_iff)
  then have "of_int (2 ^ 52) * s \<le> of_int (round_half_even (x / s)) * s"
    using spos by (simp only: mult_le_cancel_right_pos)
  then show "2 ^ k \<le> round_binary64 x" using s52 by (simp add: rb mult.commute)
  have "x / s \<le> of_int (2 ^ 53)" using assms(2) spos s52 by (simp add: field_simps)
  then have "round_half_even (x / s) \<le> 2 ^ 53" by (rule round_half_even_mono_int)
  then have "(of_int (round_half_even (x / s)) :: rat) \<le> of_int (2 ^ 53)" by (simp only: of_int_le_iff)
  then have "of_int (round_half_even (x / s)) * s \<le> of_int (2 ^ 53) * s"
    using spos by (simp only: mult_le_cancel_right_pos)
  then show "round_binary64 x \<le> 2 ^ Suc k" using s52 by (simp add: rb mult.commute)
qed

lemma round_binary64_lower:
  assumes "2 ^ k \<le> x"
  shows "2 ^ k \<le> round_binary64 x"
proof -
  have "(1::rat) \<le> 2 ^ k" by simp
  with assms have "1 \<le> x" by linarith
  from float_exponent_ex[OF this] obtain j where j: "2 ^ j \<le> x" "x < 2 ^ Suc j" by blast
  from assms j(2) have "(2::rat) ^ k < 2 ^ Suc j" by linarith
  then have "k < Suc j" by (simp only: power_strict_increasing_iff[of 2])
  then have "k \<le> j" by simp
  then have "(2::rat) ^ k \<le> 2 ^ j" by (intro power_increasing) simp_all
  with round_binary64_bounds(1)[OF j] show ?thesis by linarith
qed

subsection \<open>True division\<close>

lemma py_truediv_pow2:
  assumes "2 ^ j \<le> a" "a < 2 ^ 53"
  shows "py_truediv a (2 ^ j) = Inr (of_int a / 2 ^ j)"
proof -
  define x :: rat where "x = of_int a / 2 ^ j"
  have rb: "round_binary64 x = x"
    using assms by (intro round_binary64_exact[of x a j]) (simp_all add: x_def)
  have "(2::int) ^ j > 0" by simp
  with assms(1) have apos: "0 < a" by linarith
  then have xpos: "0 < x" by (simp add: x_def)
  have "x \<le> of_int a" using apos by (simp add: x_def field_simps mult_le_cancel_left1)
  also have "\<dots> < of_int (2 ^ 53)" using assms(2) by (simp only: of_int_less_iff)
  also have "\<dots> \<le> (2::rat) ^ 1024" by simp
  finally have "x < 2 ^ 1024" .
  then show ?thesis
    using xpos rb unfolding py_truediv_def Let_def x_def[symmetric]
    by (simp add: x_def[symmetric])
qed

lemma py_truediv_one:
  assumes "\<bar>a\<bar> \<le> 2 ^ 53"
  shows "py_truediv a 1 = Inr (of_int a)"
proof -
  have rb: "round_binary64 \<bar>of_int a\<bar> = \<bar>of_int a\<bar>" if "a \<noteq> 0"
  proof (cases "\<bar>a\<bar> = 2 ^ 53")
    case True
    then have "\<bar>of_int a :: rat\<bar> = 2 ^ 53"
      by (metis of_int_abs of_int_numeral of_int_power)
    then show ?thesis using round_binary64_2_53 by simp
  next
    case False
    with that assms have "2 ^ 0 \<le> \<bar>a\<bar>" "\<bar>a\<bar> < 2 ^ 53" by simp_all
    then show ?thesis by (intro round_binary64_exact[of _ "\<bar>a\<bar>" 0]) simp_all
  qed
  have "(of_int \<bar>a\<bar> :: rat) \<le> of_int (2 ^ 53)" using assms by (simp only: of_int_le_iff)
  also have "\<dots> < (2::rat) ^ 1024" by simp
  finally have small: "\<bar>of_int a :: rat\<bar> < 2 ^ 1024" by simp
  show ?thesis
  proof (cases "a = 0")
    case True
    then show ?thesis by (simp add: py_truediv_def)
  next
    case False
    have "sgn (of_int a :: rat) * \<bar>of_int a\<bar> = of_int a"
      by (simp add: sgn_if)
    with rb[OF False] small False show ?thesis
      unfolding py_truediv_def Let_def by (simp add: abs_mult)
  qed
qed

lemma py_truediv_ge_one:
  assumes "0 < b" "b \<le> a" "a < 2 ^ 1023"
  shows "py_truediv a b = Inr (round_binary64 (of_int a / of_int b))"
    and "1 \<le> (of_int a / of_int b :: rat)"
proof -
  define x :: rat where "x = of_int a / of_int b"
  have bpos: "(0::rat) < of_int b" using assms(1) by simp
  have "(of_int b :: rat) \<le> of_int a" using assms(2) by (simp only: of_int_le_iff)
  then show x1: "1 \<le> (of_int a / of_int b :: rat)" using bpos by (simp add: pos_le_divide_eq)
  from float_exponent_ex[of x] x1 obtain k where
    k: "2 ^ k \<le> x" "x < 2 ^ Suc k" unfolding x_def by blast
  have "1 \<le> b" using assms(1) by simp
  then have "(of_int 1 :: rat) \<le> of_int b" by (simp only: of_int_le_iff)
  then have "x \<le> of_int a" using assms(1,2) unfolding x_def
    by (simp add: pos_divide_le_eq mult_le_cancel_left1)
  also have "(of_int a :: rat) < of_int (2 ^ 1023)" using assms(3) by (simp only: of_int_less_iff)
  finally have "x < 2 ^ 1023" by simp
  with k(1) have "(2::rat) ^ k < 2 ^ 1023" by linarith
  then have "k < 1023" by (simp only: power_strict_increasing_iff[of 2])
  then have "Suc k \<le> 1023" by simp
  then have "(2::rat) ^ Suc k \<le> 2 ^ 1023" by (intro power_increasing) simp_all
  with round_binary64_bounds[OF k] have hi: "round_binary64 x \<le> 2 ^ 1023" by linarith
  have "(0::rat) < 2 ^ k" by simp
  with round_binary64_bounds(1)[OF k] have lo: "0 < round_binary64 x" by linarith
  have "(2::rat) ^ 1023 < 2 ^ 1024" by (intro power_strict_increasing) simp_all
  with hi have lt: "round_binary64 x < 2 ^ 1024" by linarith
  have xpos: "0 < x" using x1 unfolding x_def by linarith
  show "py_truediv a b = Inr (round_binary64 (of_int a / of_int b))"
    using assms(1) xpos lo lt unfolding py_truediv_def Let_def x_def[symmetric]
    by (simp add: x_def[symmetric] abs_if not_le)
qed

lemma py_round_truediv_err:
  assumes "1 \<le> x"
  shows "\<bar>of_int (py_round (round_binary64 x)) - x\<bar> \<le> 1 / 2 + x / 2 ^ 53"
proof -
  have "\<bar>of_int (round_half_even (round_binary64 x)) - round_binary64 x\<bar> \<le> 1 / 2"
    by (rule round_half_even_err)
  with round_binary64_rel_err[OF assms] show ?thesis
    unfolding py_round_def by linarith
qed

subsection \<open>Decimal digits\<close>

lemma str_nat_numeral:
  "str_nat (numeral k) =
     (if (numeral k :: nat) < 10 then [digit_char (numeral k)]
      else str_nat (numeral k div 10) @ [digit_char (numeral k mod 10)])"
  by (rule str_nat.simps)

lemma str_nat_0: "str_nat 0 = ''0''"
  by (simp add: str_nat.simps digit_char_def)

lemma str_nat_1: "str_nat (Suc 0) = ''1''"
  by (simp add: str_nat.simps[of "Suc 0"] digit_char_def)

lemmas str_eval = str_int_def str_nat_numeral str_nat_0 str_nat_1 digit_char_def

section \<open>Facts about the formatters\<close>

lemma Size_human_exact:
  assumes "0 \<le> n" "n < 2 ^ 53"
  shows "Size_human \<lparr>bytes = n\<rparr> =
     Inr (str_int (round_half_even (of_int n / of_int (snd (first_threshold size_thresholds (''bytes'', 1) n))))
          @ '' '' @ fst (first_threshold size_thresholds (''bytes'', 1) n))"
proof -
  have p: "(1024::int) ^ 4 = 2 ^ 40" "(1024::int) ^ 3 = 2 ^ 30" "(1024::int) ^ 2 = 2 ^ 20"
    "(1024::int) ^ 1 = 2 ^ 10" "(1024::int) ^ 0 = 2 ^ 0" by simp_all
  note d = py_truediv_pow2[OF _ assms(2)]
  consider (T) "2 ^ 40 \<le> n" | (G) "2 ^ 30 \<le> n" "n < 2 ^ 40" | (M) "2 ^ 20 \<le> n" "n < 2 ^ 30"
    | (K) "2 ^ 10 \<le> n" "n < 2 ^ 20" | (B) "n < 2 ^ 10" by linarith
  then show ?thesis
  proof cases
    case T
    from d[OF T] T show ?thesis
      by (simp add: Size_human_def py_round_def first_threshold_def size_thresholds_def)
  next
    case G
    from d[OF G(1)] G show ?thesis
      by (simp add: Size_human_def py_round_def first_threshold_def size_thresholds_def)
  next
    case M
    from d[OF M(1)] M show ?thesis
      by (simp add: Size_human_def py_round_def first_threshold_def size_thresholds_def)
  next
    case K
    from d[OF K(1)] K show ?thesis
      by (simp add: Size_human_def py_round_def first_threshold_def size_thresholds_def)
  next
    case B
    have "py_truediv n 1 = Inr (of_int n)" using assms by (intro py_truediv_one) simp
    with B show ?thesis
      by (simp add: Size_human_def py_round_def first_threshold_def size_thresholds_def)
  qed
qed

lemma Size_human_0: "Size_human \<lparr>bytes = 0\<rparr> = Inr ''0 bytes''"
  using Size_human_exact[of 0] 
  by (simp add: first_threshold_def size_thresholds_def rhe_eval str_eval)

lemma Size_human_1536: "Size_human \<lparr>bytes = 1536\<rparr> = Inr ''2 KiB''"
  using Size_human_exact[of 1536] 
  by (simp add: first_threshold_def size_thresholds_def rhe_eval str_eval)

lemma Size_human_GiB: "Size_human \<lparr>bytes = 1024 ^ 3\<rparr> = Inr ''1 GiB''"
  using Size_human_exact[of "1024 ^ 3"] 
  by (simp add: first_threshold_def size_thresholds_def rhe_eval str_eval)

lemma Size_human_below_MiB: "Size_human \<lparr>bytes = 1024 ^ 2 - 1\<rparr> = Inr ''1024 KiB''"
  using Size_human_exact[of "1024 ^ 2 - 1"] 
  by (simp add: first_threshold_def size_thresholds_def rhe_eval str_eval)

lemma Size_human_8192: "Size_human \<lparr>bytes = 8192\<rparr> = Inr ''8 KiB''"
  using Size_human_exact[of 8192]
  by (simp add: first_threshold_def size_thresholds_def rhe_eval str_eval)

lemma Count_human_small:
  assumes "- (2 ^ 53) \<le> n" "n < 1000"
  shows "Count_human \<lparr>count = n\<rparr> = Inr (str_int n @ '' rows'')"
proof -
  have "\<bar>n\<bar> \<le> 2 ^ 53" using assms by simp
  then have "py_truediv n 1 = Inr (of_int n)" by (rule py_truediv_one)
  with assms(2) show ?thesis
    by (simp add: Count_human_def py_round_def round_half_even_of_int)
qed

lemma Count_human_large:
  assumes "1000 \<le> n" "n < 2 ^ 1023"
  shows "Count_human \<lparr>count = n\<rparr> =
     Inr (str_int (py_round (round_binary64
            (of_int n / of_int (snd (first_threshold count_thresholds ('' rows'', 1) n)))))
          @ fst (first_threshold count_thresholds ('' rows'', 1) n))"
proof -
  note d = py_truediv_ge_one(1)[OF _ _ assms(2)]
  consider (G) "1000 ^ 3 \<le> n" | (M) "1000 ^ 2 \<le> n" "n < 1000 ^ 3"
    | (K) "n < 1000 ^ 2" by linarith
  then show ?thesis
  proof cases
    case G
    from d[OF _ G] G show ?thesis
      by (simp add: Count_human_def first_threshold_def count_thresholds_def)
  next
    case M
    from d[OF _ M(1)] M show ?thesis
      by (simp add: Count_human_def first_threshold_def count_thresholds_def)
  next
    case K
    from d[of 1000] assms(1) K show ?thesis
      by (simp add: Count_human_def first_threshold_def count_thresholds_def)
  qed
qed

lemma Count_human_value:
  assumes "0 \<le> n" "n < 2 ^ 1023"
  shows "\<exists>v. Count_human \<lparr>count = n\<rparr>
                = Inr (str_int v @ fst (first_threshold count_thresholds ('' rows'', 1) n))
            \<and> \<bar>of_int v - of_int n / of_int (snd (first_threshold count_thresholds ('' rows'', 1) n))\<bar>
                \<le> (1 / 2 + of_int n / of_int (snd (first_threshold count_thresholds ('' rows'', 1) n)) / 2 ^ 53 :: rat)"
proof (cases "n < 1000")
  case True
  with assms(1) have "Count_human \<lparr>count = n\<rparr> = Inr (str_int n @ '' rows'')"
    by (intro Count_human_small) simp_all
  moreover have "first_threshold count_thresholds ('' rows'', 1) n = ('' rows'', 1)"
    using True by (simp add: first_threshold_def count_thresholds_def)
  ultimately show ?thesis using assms(1) by (intro exI[of _ n]) simp
next
  case False
  then have ge: "1000 \<le> n" by simp
  define t where "t = snd (first_threshold count_thresholds ('' rows'', 1) n)"
  have t: "0 < t" "t \<le> n"
    using ge by (auto simp: t_def first_threshold_def count_thresholds_def)
  have x1: "1 \<le> (of_int n / of_int t :: rat)"
    using py_truediv_ge_one(2)[OF t assms(2)] .
  show ?thesis
    using Count_human_large[OF ge assms(2)] py_round_truediv_err[OF x1]
    unfolding t_def by blast
qed

lemma Count_human_500: "Count_human \<lparr>count = 500\<rparr> = Inr ''500 rows''"
  using Count_human_small[of 500] by (simp add: str_eval)

lemma Count_human_1: "Count_human \<lparr>count = 1\<rparr> = Inr ''1 rows''"
  using Count_human_small[of 1] by (simp add: str_eval)

lemma Count_human_minus_1: "Count_human \<lparr>count = - 1\<rparr> = Inr ''-1 rows''"
  using Count_human_small[of "- 1"] by (simp add: str_eval)

lemma round_binary64_3_2: "round_binary64 (3 / 2) = 3 / 2"
  using round_binary64_exact[of "3 / 2" 3 1] by simp

lemma round_binary64_1: "round_binary64 1 = 1"
  using round_binary64_exact[of 1 1 0] by simp

lemma Count_human_1500: "Count_human \<lparr>count = 1500\<rparr> = Inr ''2k rows''"
  using Count_human_large[of 1500]
  by (simp add: first_threshold_def count_thresholds_def round_binary64_3_2 py_round_def rhe_eval str_eval)

lemma Count_human_million: "Count_human \<lparr>count = 1000000\<rparr> = Inr ''1kk rows''"
  using Count_human_large[of 1000000]
  by (simp add: first_threshold_def count_thresholds_def round_binary64_1 py_round_def rhe_eval str_eval)

lemma round_binary64_999999_1000: "round_binary64 (999999 / 1000) = 4398042113057489 / 4398046511104"
  using round_binary64_eval[of 9 "999999 / 1000"]
  by (simp add: pow2_def rhe_eval)

lemma Count_human_below_million: "Count_human \<lparr>count = 1000 ^ 2 - 1\<rparr> = Inr ''1000k rows''"
  using Count_human_large[of 999999]
  by (simp add: first_threshold_def count_thresholds_def round_binary64_999999_1000 py_round_def rhe_eval str_eval)

lemma Size_human_just_below_MiB:
  assumes "1024 ^ 2 - 512 \<le> n" "n < 1024 ^ 2"
  shows "Size_human \<lparr>bytes = n\<rparr> = Inr ''1024 KiB''"
proof -
  have n: "0 \<le> n" "n < 2 ^ 53" using assms by simp_all
  have t: "first_threshold size_thresholds (''bytes'', 1) n = (''KiB'', 1024)"
    using assms by (simp add: first_threshold_def size_thresholds_def)
  have "(of_int (1024 ^ 2 - 512) :: rat) \<le> of_int n" "(of_int n :: rat) < of_int (1024 ^ 2)"
    using assms by (simp_all only: of_int_le_iff of_int_less_iff)
  then have "of_int 1024 - 1 / 2 \<le> (of_int n / of_int 1024 :: rat)"
    "(of_int n / of_int 1024 :: rat) < of_int 1024"
    by (simp_all add: field_simps)
  then have "round_half_even (of_int n / of_int 1024) = 1024"
    by (rule round_half_even_upper_half) simp
  with Size_human_exact[OF n] t show ?thesis by (simp add: str_eval)
qed

lemma Count_human_just_below_million:
  assumes "1000 ^ 2 - 500 \<le> n" "n < 1000 ^ 2"
  shows "Count_human \<lparr>count = n\<rparr> = Inr ''1000k rows''"
proof -
  have n: "1000 \<le> n" "n < 2 ^ 1023" using assms by simp_all
  have t: "first_threshold count_thresholds ('' rows'', 1) n = (''k rows'', 1000)"
    using assms by (simp add: first_threshold_def count_thresholds_def)
  define x :: rat where "x = of_int n / of_int 1000"
  have "(of_int (1000 ^ 2 - 500) :: rat) \<le> of_int n" "(of_int n :: rat) \<le> of_int (1000 ^ 2 - 1)"
    using assms by (simp_all only: of_int_le_iff)
  then have x: "1999 / 2 \<le> x" "x \<le> 999999 / 1000" by (simp_all add: x_def field_simps)
  have k: "2 ^ 9 \<le> x" "x < 2 ^ Suc 9" using x by simp_all
  have "round_half_even (round_binary64 x) = 1000"
  proof (cases "n = 1000 ^ 2 - 500")
    case True
    then have xv: "x = of_int 1999 / 2 ^ 1" by (simp add: x_def)
    have a: "round_binary64 x = x" using xv by (rule round_binary64_exact) simp_all
    have b: "x = 1999 / 2" by (simp add: xv)
    have c: "round_half_even (1999 / 2) = 1000" by (simp add: rhe_eval)
    show ?thesis unfolding a unfolding b by (rule c)
  next
    case False
    with assms(1) have "1000 ^ 2 - 499 \<le> n" by simp
    then have "(of_int (1000 ^ 2 - 499) :: rat) \<le> of_int n" by (simp only: of_int_le_iff)
    then have lo: "999501 / 1000 \<le> x" by (simp add: x_def field_simps)
    have fe: "float_exponent x = int 9" using k by (rule float_exponent_eq)
    have "1 \<le> x" using x(1) by simp
    from round_binary64_err[OF this] have "\<bar>round_binary64 x - x\<bar> \<le> 1 / 17592186044416"
      by (simp add: fe pow2_def)
    with lo x(2) have "1999 / 2 < round_binary64 x" "round_binary64 x < 2001 / 2"
      by linarith+
    then have "of_int 1000 - 1 / 2 < round_binary64 x"
      "round_binary64 x < of_int 1000 + 1 / 2" by simp_all
    then show ?thesis by (rule round_half_even_near)
  qed
  with Count_human_large[OF n] t show ?thesis by (simp add: py_round_def x_def str_eval)
qed

subsection \<open>Where the float shows\<close>

lemma round_binary64_tie: "round_binary64 (9007749010554881 / 1099511627776) = 16385 / 2"
  using round_binary64_eval[of 13 "9007749010554881 / 1099511627776"]
  by (simp add: pow2_def rhe_eval)

lemma Size_human_double_rounding: "Size_human \<lparr>bytes = 9007749010554881\<rparr> = Inr ''8192 TiB''"
  by (simp add: Size_human_def py_truediv_def round_binary64_tie py_round_def rhe_eval str_eval)

lemma round_binary64_2_53_plus_1: "round_binary64 9007199254740993 = 9007199254740992"
  using round_binary64_eval[of 53 9007199254740993]
  by (simp add: pow2_def rhe_eval)

lemma Count_human_beyond_2_53: "Count_human \<lparr>count = - 9007199254740993\<rparr> = Inr ''-9007199254740992 rows''"
  by (simp add: Count_human_def py_truediv_def round_binary64_2_53_plus_1 py_round_def rhe_eval str_eval)

lemma Count_human_overflow: "Count_human \<lparr>count = 10 ^ 400\<rparr> = Inl OverflowError"
proof -
  define n :: int where "n = 10 ^ 400"
  define x :: rat where "x = of_int n / of_int (1000 ^ 3)"
  have e: "(400::nat) = 391 + 9" by simp
  have a: "(of_int n :: rat) = 10 ^ 391 * 10 ^ 9"
    unfolding n_def e power_add by (simp only: of_int_mult of_int_power of_int_numeral)
  have b: "(of_int (1000 ^ 3) :: rat) = 10 ^ 9" by simp
  have nz: "(10::rat) ^ 9 \<noteq> 0" by simp
  have x: "x = 10 ^ 391" unfolding x_def a b using nz by (rule nonzero_mult_div_cancel_right)
  have "(2::rat) ^ 1024 \<le> 2 ^ (3 * 391)" by (intro power_increasing) simp_all
  also have "\<dots> = (2 ^ 3) ^ 391" by (simp only: power_mult)
  also have "\<dots> \<le> 10 ^ 391" by (intro power_mono) simp_all
  finally have big: "2 ^ 1024 \<le> x" unfolding x .
  then have rb: "2 ^ 1024 \<le> round_binary64 x" by (rule round_binary64_lower)
  have "(0::rat) < 2 ^ 1024" by (rule zero_less_power) simp
  with big have xpos: "0 < x" by linarith
  have td: "py_truediv n (1000 ^ 3) = Inl OverflowError"
    unfolding py_truediv_def Let_def x_def[symmetric] using rb xpos
    by (simp add: abs_if x_def[symmetric])
  have "(1000::int) ^ 3 = 10 ^ 9" by simp
  also have "\<dots> \<le> 10 ^ 400" by (intro power_increasing) simp_all
  finally have "1000 ^ 3 \<le> n" unfolding n_def .
  with td have "Count_human \<lparr>count = n\<rparr> = Inl OverflowError"
    by (simp add: Count_human_def)
  then show ?thesis unfolding n_def .
qed

section \<open>Facts about traces and runs\<close>

lemma yielded_Cons: "yielded (ev # tr) = yield_of ev @ yielded tr"
  by (simp add: yielded_def)

lemma yielded_Nil: "yielded [] = []"
  by (simp add: yielded_def)

lemma yielded_append: "yielded (a @ b) = yielded a @ yielded b"
  by (simp add: yielded_def)

lemma printed_Cons: "printed (ev # tr) = print_of ev @ printed tr"
  by (simp add: printed_def)

lemma printed_Nil: "printed [] = []"
  by (simp add: printed_def)

lemma printed_append: "printed (a @ b) = printed a @ printed b"
  by (simp add: printed_def)

lemmas obs_simps = yielded_Cons yielded_Nil yielded_append printed_Cons printed_Nil printed_append

lemma yielded_prints: "\<forall>ev \<in> set tr. \<exists>l. ev = Print l \<Longrightarrow> yielded tr = []"
  by (induction tr) (auto simp: yielded_def)

lemma Database_tables_update_same:
  "Database_tables db = [] \<Longrightarrow> db\<lparr>Database_tables := []\<rparr> = db"
  by (cases db) simp

lemma Database_display_no_tables:
  assumes "Database_tables db = []"
  shows "Database_display db ident tr =
           (fst (Database_display db ident []), tr @ snd (Database_display db ident []))"
    and "\<forall>ev \<in> set (snd (Database_display db ident [])). \<exists>l. ev = Print l"
  using assms by (auto simp: Database_display_def print_def Let_def split: sum.splits)

lemma loop_hide:
  assumes "fetch_databases_loop srv base_dsn sort_by False show_fields
             (\<lambda>database. Database_display database 0) data tables tr = (err, tr')"
  shows "\<exists>new. tr' = tr @ new
           \<and> (\<forall>ev \<in> set new. (\<exists>db. ev = Yield db) \<or> (\<exists>l. ev = Print l))
           \<and> (\<forall>db \<in> set (yielded new). Database_tables db = [])
           \<and> printed new = concat (map (\<lambda>db. printed (snd (Database_display db 0 []))) (yielded new))
           \<and> (err = None \<longrightarrow> yielded new = map (\<lambda>row. Database_of_row row []) data)"
  using assms
proof (induction data arbitrary: tables tr)
  case Nil
  then show ?case by (simp add: yielded_def printed_def)
next
  case (Cons row data)
  define db where "db = Database_of_row row []"
  have nt: "Database_tables db = []" by (simp add: db_def Database_of_row_def)
  define e1 where "e1 = fst (Database_display db 0 [])"
  define out where "out = snd (Database_display db 0 [])"
  have disp: "Database_display db 0 (tr @ [Yield db]) = (e1, (tr @ [Yield db]) @ out)"
    unfolding e1_def out_def by (rule Database_display_no_tables(1)[OF nt])
  have outp: "\<forall>ev \<in> set out. \<exists>l. ev = Print l"
    unfolding out_def by (rule Database_display_no_tables(2)[OF nt])
  have yo: "yielded out = []" using outp by (rule yielded_prints)
  have po: "printed ([Yield db] @ out) = printed out" by (simp add: obs_simps)
  show ?case
  proof (cases e1)
    case (Some e)
    with Cons.prems disp have "tr' = tr @ ([Yield db] @ out)" "err = Some e"
      by (simp_all add: db_def Database_of_row_def)
    then show ?thesis using outp nt yo po
      by (intro exI[of _ "[Yield db] @ out"]) (auto simp: obs_simps out_def)
  next
    case None
    with Cons.prems disp have
      "fetch_databases_loop srv base_dsn sort_by False show_fields
             (\<lambda>database. Database_display database 0) data (Some []) ((tr @ [Yield db]) @ out) = (err, tr')"
      by (simp add: db_def Database_of_row_def)
    from Cons.IH[OF this] obtain new where new:
      "tr' = ((tr @ [Yield db]) @ out) @ new"
      "\<forall>ev \<in> set new. (\<exists>db. ev = Yield db) \<or> (\<exists>l. ev = Print l)"
      "\<forall>db \<in> set (yielded new). Database_tables db = []"
      "printed new = concat (map (\<lambda>db. printed (snd (Database_display db 0 []))) (yielded new))"
      "err = None \<longrightarrow> yielded new = map (\<lambda>row. Database_of_row row []) data"
      by blast
    have y: "yielded ([Yield db] @ out @ new) = db # yielded new"
      using yo by (simp add: obs_simps)
    have p: "printed ([Yield db] @ out @ new) = printed out @ printed new"
      by (simp add: obs_simps)
    show ?thesis using new outp nt y p
      by (intro exI[of _ "[Yield db] @ out @ new"]) (auto simp: out_def db_def)
  qed
qed

lemma foldl_snoc_map: "foldl (\<lambda>acc x. acc @ [f x]) a xs = a @ map f xs"
  by (induction xs arbitrary: a) simp_all

lemmas run_defs =
  main_def fetch_and_display_all_def fetch_databases_def fetch_tables_def
  order_by_expression_def connect_def close_def Database_of_row_def sample_kwargs_def

lemmas display_defs =
  Database_display_def Table_display_def Field_display_def print_def truthy_def Let_def

lemma main_denied:
  "main denied_server sample_kwargs =
     (Some UnboundLocalError,
      [Connect ''pg/postgres'' 0, Fetch 0 (DatabasesQuery ByName),
       Connect ''pg/vault'' 1, Fetch 1 (TablesQuery ByName)])"
  by (simp add: run_defs denied_server_def vault_row_def)

lemma main_broken:
  "main broken_server sample_kwargs =
     (Some PostgresError,
      [Connect ''pg/postgres'' 0, Fetch 0 (DatabasesQuery ByName),
       Connect ''pg/shop'' 1, Fetch 1 (TablesQuery ByName)])"
  by (simp add: run_defs broken_server_def shop_row_def)

lemma main_mixed:
  "fst (main mixed_server sample_kwargs) = None"
  "map (\<lambda>db. (Database_name db, map Table_name (Database_tables db)))
       (yielded (snd (main mixed_server sample_kwargs)))
     = [(''shop'', [''orders'']), (''vault'', [''orders''])]"
  "filter (\<lambda>ev. \<not> (\<exists>l. ev = Print l) \<and> \<not> (\<exists>d. ev = Yield d)) (snd (main mixed_server sample_kwargs))
     = [Connect ''pg/postgres'' 0, Fetch 0 (DatabasesQuery ByName),
        Connect ''pg/shop'' 1, Fetch 1 (TablesQuery ByName), Fetch 1 ColumnsQuery, Close 1,
        Connect ''pg/vault'' 2, Fetch 2 (TablesQuery ByName), Close 0]"
  "open_connections (snd (main mixed_server sample_kwargs)) = [2]"
  by (simp_all add: run_defs display_defs mixed_server_def shop_row_def vault_row_def
        orders_table_def orders_columns_def fetch_fields_def obs_simps open_connections_def
        Size_human_8192 Size_human_1536 Count_human_500)

subsection \<open>Substrings across separators\<close>

lemma sublist_across_char:
  assumes "c \<notin> set s"
  shows "sublist s (xs @ c # ys) \<longleftrightarrow> sublist s xs \<or> sublist s ys"
proof
  assume "sublist s (xs @ c # ys)"
  then consider (L) "sublist s xs" | (R) "sublist s (c # ys)"
    | (M) s1 s2 where "s = s1 @ s2" "suffix s1 xs" "prefix s2 (c # ys)"
    unfolding sublist_append by blast
  then show "sublist s xs \<or> sublist s ys"
  proof cases
    case L
    then show ?thesis by simp
  next
    case R
    then have "prefix s (c # ys) \<or> sublist s ys" by (simp only: sublist_Cons_right)
    moreover have "s = []" if "prefix s (c # ys)"
      using that assms by (cases s) auto
    ultimately show ?thesis by auto
  next
    case M
    have "s2 = []" using M(1,3) assms by (cases s2) auto
    with M(1,2) have "suffix s xs" by simp
    then obtain zs where "xs = zs @ s" by (auto simp: suffix_def)
    then have "sublist s xs" by simp
    then show ?thesis by simp
  qed
next
  assume "sublist s xs \<or> sublist s ys"
  then show "sublist s (xs @ c # ys)"
    by (metis sublist_append sublist_Cons_right)
qed

lemma sublist_across_sep:
  assumes "sep \<noteq> []" "set sep \<inter> set s = {}"
  shows "sublist s (xs @ sep @ ys) \<longleftrightarrow> sublist s xs \<or> sublist s ys"
  using assms
proof (induction sep arbitrary: xs)
  case Nil
  then show ?case by simp
next
  case (Cons c sep)
  then have c: "c \<notin> set s" and d: "set sep \<inter> set s = {}" by auto
  have 1: "sublist s (xs @ (c # sep) @ ys) \<longleftrightarrow> sublist s xs \<or> sublist s (sep @ ys)"
    using sublist_across_char[OF c, of xs "sep @ ys"] by simp
  show ?case
  proof (cases "sep = []")
    case True
    with 1 show ?thesis by simp
  next
    case False
    from Cons.IH[OF False d, of "[]"] have "sublist s (sep @ ys) \<longleftrightarrow> s = [] \<or> sublist s ys"
      by simp
    with 1 show ?thesis by auto
  qed
qed

lemma set_indent: "set (indent n) \<subseteq> {CHR '' ''}"
  by (induction n) (auto simp: indent_def)

lemma Field_display_line:
  "Field_display f ident tr =
     tr @ [Print ((indent ident @ bullet @ '' '' @ F_GREEN) @ Field_name f
                  @ (F_RESET @ '' | '') @ Field_type f
                  @ (if Field_nullable f then '' '' @ F_RED @ ''(nullable)'' @ F_RESET else []))]"
  by (simp add: Field_display_def print_def)

lemma nearest_half_even_5_2: "nearest_half_even (5 / 2) v \<Longrightarrow> v = 2"
proof -
  assume a: "nearest_half_even (5 / 2) v"
  then have "\<bar>(of_int v :: rat) - 5 / 2\<bar> \<le> 1 / 2" by (simp add: nearest_half_even_def)
  then have "(2 :: rat) \<le> of_int v" "(of_int v :: rat) \<le> 3" by linarith+
  then have "(of_int 2 :: rat) \<le> of_int v" "(of_int v :: rat) \<le> of_int 3" by simp_all
  then have "2 \<le> v" "v \<le> 3" by (simp_all only: of_int_le_iff)
  moreover have "v \<noteq> 3" using a by (auto simp: nearest_half_even_def)
  ultimately show "v = 2" by linarith
qed

section \<open>The claims\<close>

subsection \<open>C1: a database whose tables may not be listed\<close>

text \<open>
  C1 says that a database whose table listing fails with \<open>InsufficientPrivilegeError\<close> is
  still produced, with an empty table sequence, and that the run continues. The handler in
  \<open>fetch_databases\<close> is \<^verbatim>\<open>pass\<close>: it leaves the local \<^verbatim>\<open>tables\<close> as it was. On the first
  database the variable is unbound, so building the \<open>Database\<close> raises
  \<open>UnboundLocalError\<close> and the run ends before anything is yielded or printed. On a later
  database the variable still holds the previous database's tables: \<open>vault\<close> is yielded
  with the table \<open>orders\<close> of \<open>shop\<close>.
\<close>

theorem privilege_error_leaves_tables_unassigned:
  "main denied_server sample_kwargs =
     (Some UnboundLocalError,
      [Connect ''pg/postgres'' 0, Fetch 0 (DatabasesQuery ByName),
       Connect ''pg/vault'' 1, Fetch 1 (TablesQuery ByName)])
   \<and> fst (main mixed_server sample_kwargs) = None
   \<and> map (\<lambda>db. (Database_name db, map Table_name (Database_tables db)))
          (yielded (snd (main mixed_server sample_kwargs)))
       = [(''shop'', [''orders'']), (''vault'', [''orders''])]"
  using main_denied main_mixed(1,2) by (intro conjI)

subsection \<open>C2: sizes\<close>

text \<open>
  C2 as stated, for every non-negative \<open>n\<close>, fails: the quotient is a float before it is
  rounded. At \<open>n = 2 ^ 53 + 2 ^ 39 + 1\<close> the exact quotient by \<open>1024 ^ 4\<close> lies just above
  \<open>8192.5\<close>, its float is \<open>8192.5\<close>, and \<^verbatim>\<open>round\<close> takes that tie to the even \<open>8192\<close>,
  which is further than a half from the quotient under either tie rule.
\<close>

theorem Size_human_rounding_counterexample:
  "(0::int) \<le> 9007749010554881
   \<and> Size_human \<lparr>bytes = 9007749010554881\<rparr> = Inr (str_int 8192 @ '' '' @ ''TiB'')
   \<and> first_threshold size_thresholds (''bytes'', 1) 9007749010554881 = (''TiB'', 1024 ^ 4)
   \<and> (1 / 2 :: rat) < \<bar>of_int 8192 - of_int 9007749010554881 / of_int (1024 ^ 4)\<bar>"
  using Size_human_double_rounding by (simp add: str_eval first_threshold_def size_thresholds_def)

text \<open>
  C2, amended: for every \<open>n\<close> with \<open>0 \<le> n < 2 ^ 53\<close> the size formatter picks the first
  threshold among \<open>1024 ^ 4\<close>, \<open>1024 ^ 3\<close>, \<open>1024 ^ 2\<close>, \<open>1024\<close> that \<open>n\<close> meets or exceeds
  (else raw bytes), divides \<open>n\<close> by it, rounds to the nearest integer, ties to even, and
  returns the integer, a space and the unit; \<open>0\<close> gives \<open>0 bytes\<close>, \<open>1536\<close> gives \<open>2 KiB\<close>
  and \<open>1024 ^ 3\<close> gives \<open>1 GiB\<close>.
\<close>

theorem Size_human_nearest:
  "(\<forall>n. 0 \<le> n \<and> n < 2 ^ 53 \<longrightarrow>
       (\<exists>v. Size_human \<lparr>bytes = n\<rparr>
                = Inr (str_int v @ '' '' @ fst (first_threshold size_thresholds (''bytes'', 1) n))
            \<and> nearest_half_even
                 (of_int n / of_int (snd (first_threshold size_thresholds (''bytes'', 1) n))) v))
   \<and> Size_human \<lparr>bytes = 0\<rparr> = Inr ''0 bytes''
   \<and> Size_human \<lparr>bytes = 1536\<rparr> = Inr ''2 KiB''
   \<and> Size_human \<lparr>bytes = 1024 ^ 3\<rparr> = Inr ''1 GiB''"
proof -
  have "\<exists>v. Size_human \<lparr>bytes = n\<rparr>
                = Inr (str_int v @ '' '' @ fst (first_threshold size_thresholds (''bytes'', 1) n))
            \<and> nearest_half_even
                 (of_int n / of_int (snd (first_threshold size_thresholds (''bytes'', 1) n))) v"
    if "0 \<le> n" "n < 2 ^ 53" for n
    using Size_human_exact[OF that] round_half_even_nearest by blast
  then show ?thesis using Size_human_0 Size_human_1536 Size_human_GiB by blast
qed

text \<open>The witness of C2: \<open>2560\<close> bytes are \<open>2.5\<close> KiB, a tie, which goes to the even \<open>2\<close>.\<close>

theorem Size_human_nearest_witness:
  "(0::int) \<le> 2560 \<and> (2560::int) < 2 ^ 53 \<and> Size_human \<lparr>bytes = 2560\<rparr> = Inr ''2 KiB''"
proof -
  have h: "(0::int) \<le> 2560 \<and> (2560::int) < 2 ^ 53" by simp
  with Size_human_nearest obtain v where
    v: "Size_human \<lparr>bytes = 2560\<rparr>
          = Inr (str_int v @ '' '' @ fst (first_threshold size_thresholds (''bytes'', 1) 2560))"
       "nearest_half_even
          (of_int 2560 / of_int (snd (first_threshold size_thresholds (''bytes'', 1) 2560))) v"
    by blast
  from v(2) have "nearest_half_even (5 / 2) v"
    by (simp add: first_threshold_def size_thresholds_def)
  then have "v = 2" by (rule nearest_half_even_5_2)
  with v(1) h show ?thesis
    by (simp add: first_threshold_def size_thresholds_def str_eval)
qed

subsection \<open>C3: row counts\<close>

text \<open>
  C3 as stated, for every non-negative \<open>n\<close>, fails where the quotient does not fit a float:
  \<open>10 ^ 400\<close> rows raise \<open>OverflowError\<close>.
\<close>

theorem Count_human_overflow_counterexample:
  "(0::int) \<le> 10 ^ 400 \<and> Count_human \<lparr>count = 10 ^ 400\<rparr> = Inl OverflowError"
  using Count_human_overflow by simp

text \<open>
  C3, amended: for every \<open>n\<close> with \<open>0 \<le> n < 2 ^ 1023\<close> the row-count formatter returns an
  integer followed by the suffix of the first threshold among \<open>1000 ^ 3\<close> (\<open>kkk rows\<close>),
  \<open>1000 ^ 2\<close> (\<open>kk rows\<close>), \<open>1000\<close> (\<open>k rows\<close>) that \<open>n\<close> meets or exceeds, else \<open> rows\<close>; the
  integer is within \<open>1 / 2 + q / 2 ^ 53\<close> of the quotient \<open>q\<close>, and below \<open>1000\<close> it is \<open>n\<close>
  itself. The suffix does not vary with the value (\<open>1 rows\<close>); \<open>500\<close> gives \<open>500 rows\<close>,
  \<open>1500\<close> gives \<open>2k rows\<close> and \<open>1000000\<close> gives \<open>1kk rows\<close>.
\<close>

theorem Count_human_thresholds:
  "(\<forall>n. 0 \<le> n \<and> n < 2 ^ 1023 \<longrightarrow>
       (\<exists>v. Count_human \<lparr>count = n\<rparr>
                = Inr (str_int v @ fst (first_threshold count_thresholds ('' rows'', 1) n))
            \<and> \<bar>of_int v - of_int n / of_int (snd (first_threshold count_thresholds ('' rows'', 1) n))\<bar>
                \<le> (1 / 2 + of_int n / of_int (snd (first_threshold count_thresholds ('' rows'', 1) n)) / 2 ^ 53 :: rat)))
   \<and> (\<forall>n. 0 \<le> n \<and> n < 1000 \<longrightarrow> Count_human \<lparr>count = n\<rparr> = Inr (str_int n @ '' rows''))
   \<and> Count_human \<lparr>count = 1\<rparr> = Inr ''1 rows''
   \<and> Count_human \<lparr>count = 500\<rparr> = Inr ''500 rows''
   \<and> Count_human \<lparr>count = 1500\<rparr> = Inr ''2k rows''
   \<and> Count_human \<lparr>count = 1000000\<rparr> = Inr ''1kk rows''"
proof -
  have "Count_human \<lparr>count = n\<rparr> = Inr (str_int n @ '' rows'')" if "0 \<le> n \<and> n < 1000" for n
    using that by (intro Count_human_small) simp_all
  then show ?thesis using Count_human_value Count_human_500 Count_human_1 Count_human_1500 Count_human_million by blast
qed

text \<open>The witness of C3, below and above the first threshold.\<close>

theorem Count_human_thresholds_witness:
  "(0::int) \<le> 7 \<and> (7::int) < 1000 \<and> Count_human \<lparr>count = 7\<rparr> = Inr ''7 rows''
   \<and> (0::int) \<le> 2500 \<and> (2500::int) < 2 ^ 1023
   \<and> (\<exists>v. Count_human \<lparr>count = 2500\<rparr> = Inr (str_int v @ ''k rows''))"
proof -
  have h1: "(0::int) \<le> 7 \<and> (7::int) < 1000" by simp
  have h2: "(0::int) \<le> 2500 \<and> (2500::int) < 2 ^ 1023" by simp
  from Count_human_thresholds h1 have a: "Count_human \<lparr>count = 7\<rparr> = Inr (str_int 7 @ '' rows'')"
    by blast
  from Count_human_thresholds h2 obtain v where
    "Count_human \<lparr>count = 2500\<rparr>
       = Inr (str_int v @ fst (first_threshold count_thresholds ('' rows'', 1) 2500))"
    by blast
  then have b: "\<exists>v. Count_human \<lparr>count = 2500\<rparr> = Inr (str_int v @ ''k rows'')"
    by (intro exI[of _ v]) (simp add: first_threshold_def count_thresholds_def)
  from a b h1 h2 show ?thesis by (simp add: str_eval)
qed

subsection \<open>C4: connections\<close>

text \<open>
  C4 says that every connection an iteration opens is closed by the end of that iteration,
  also when the query on it fails. \<open>fetch_tables\<close> closes its connection in its last
  statement only, so a failing query skips the close. With \<open>mixed_server\<close> the permission
  error on \<open>vault\<close> is swallowed, the run ends normally and connection \<open>2\<close> is still open;
  with \<open>broken_server\<close> the run ends in \<open>PostgresError\<close> with connections \<open>0\<close> and \<open>1\<close> open.
\<close>

theorem failed_query_leaves_connection_open:
  "fst (main mixed_server sample_kwargs) = None
   \<and> open_connections (snd (main mixed_server sample_kwargs)) = [2]
   \<and> fst (main broken_server sample_kwargs) = Some PostgresError
   \<and> open_connections (snd (main broken_server sample_kwargs)) = [0, 1]"
  using main_mixed(1,4) by (simp add: main_broken open_connections_def)

subsection \<open>C5: hidden tables\<close>

text \<open>
  C5: in a run with the tables option other than \<open>show\<close> (so with \<open>hide\<close>), the only query
  sent is the database query and the only DSN connected to is that of \<open>postgres\<close>, so no
  table listing is fetched; every \<open>Database\<close> yielded has an empty table sequence; what is
  printed is, database by database, the rendering of a \<open>Database\<close> without tables; and a run
  that ends normally yields one such \<open>Database\<close> per row of the database query.
\<close>

theorem hide_tables_no_fetch:
  assumes "tables \<noteq> ''show''"
    and "fetch_and_display_all srv dsn sort_by tables indexes views fields' [] = (err, tr)"
  shows "(\<forall>c q. Fetch c q \<in> set tr \<longrightarrow> (\<exists>order. q = DatabasesQuery order))
       \<and> (\<forall>d c. Connect d c \<in> set tr \<longrightarrow> d = dsn @ ''/postgres'')
       \<and> (\<forall>d. ConnectFailed d \<in> set tr \<longrightarrow> d = dsn @ ''/postgres'')
       \<and> (\<forall>db \<in> set (yielded tr). Database_tables db = [])
       \<and> printed tr =
           concat (map (\<lambda>db. printed (snd (Database_display (db\<lparr>Database_tables := []\<rparr>) 0 [])))
                       (yielded tr))
       \<and> (\<forall>order data. err = None \<and> order_by_expression sort_by = Inr order
              \<and> databases_result srv (dsn @ ''/postgres'') order = Inr data
            \<longrightarrow> yielded tr = map (\<lambda>row. Database_of_row row []) data)"
proof (cases "order_by_expression sort_by")
  case (Inl e)
  with assms show ?thesis
    by (auto simp: fetch_and_display_all_def fetch_databases_def obs_simps)
next
  case (Inr order)
  note ord = this
  show ?thesis
  proof (cases "connect_error srv (dsn @ ''/postgres'')")
    case (Some e)
    with assms ord show ?thesis
      by (auto simp: fetch_and_display_all_def fetch_databases_def connect_def obs_simps)
  next
    case None
    note conn = this
    show ?thesis
    proof (cases "databases_result srv (dsn @ ''/postgres'') order")
      case (Inl e)
      with assms ord conn show ?thesis
        by (auto simp: fetch_and_display_all_def fetch_databases_def connect_def obs_simps)
    next
      case (Inr data)
      define tr2 where "tr2 = [Connect (dsn @ ''/postgres'') 0, Fetch 0 (DatabasesQuery order)]"
      obtain e3 tr3 where loop:
        "fetch_databases_loop srv dsn sort_by False (fields' = ''show'')
           (\<lambda>database. Database_display database 0) data None tr2 = (e3, tr3)"
        by (cases "fetch_databases_loop srv dsn sort_by False (fields' = ''show'')
           (\<lambda>database. Database_display database 0) data None tr2") blast
      from loop_hide[OF loop] obtain new where new:
        "tr3 = tr2 @ new"
        "\<forall>ev \<in> set new. (\<exists>db. ev = Yield db) \<or> (\<exists>l. ev = Print l)"
        "\<forall>db \<in> set (yielded new). Database_tables db = []"
        "printed new = concat (map (\<lambda>db. printed (snd (Database_display db 0 []))) (yielded new))"
        "e3 = None \<longrightarrow> yielded new = map (\<lambda>row. Database_of_row row []) data"
        by blast
      have res: "err = e3" "tr = (if e3 = None then tr3 @ [Close 0] else tr3)"
        using assms ord conn Inr loop
        by (auto simp: fetch_and_display_all_def fetch_databases_def connect_def close_def
                       tr2_def split: option.splits)
      have y: "yielded tr = yielded new" using res(2) new(1)
        by (simp add: tr2_def obs_simps)
      have p: "printed tr = printed new" using res(2) new(1)
        by (simp add: tr2_def obs_simps)
      have same: "map (\<lambda>db. printed (snd (Database_display (db\<lparr>Database_tables := []\<rparr>) 0 []))) (yielded new)
                = map (\<lambda>db. printed (snd (Database_display db 0 []))) (yielded new)"
        using new(3) by (intro map_cong) (simp_all add: Database_tables_update_same)
      have ev: "set tr \<subseteq> set tr2 \<union> set new \<union> {Close 0}"
        using res(2) new(1) by auto
      have 1: "\<forall>c q. Fetch c q \<in> set tr \<longrightarrow> (\<exists>order. q = DatabasesQuery order)"
        using ev new(2) by (auto simp: tr2_def)
      have 2: "\<forall>d c. Connect d c \<in> set tr \<longrightarrow> d = dsn @ ''/postgres''"
        using ev new(2) by (auto simp: tr2_def)
      have 3: "\<forall>d. ConnectFailed d \<in> set tr \<longrightarrow> d = dsn @ ''/postgres''"
        using ev new(2) by (auto simp: tr2_def)
      have 6: "\<forall>order' data'. err = None \<and> order_by_expression sort_by = Inr order'
              \<and> databases_result srv (dsn @ ''/postgres'') order' = Inr data'
            \<longrightarrow> yielded tr = map (\<lambda>row. Database_of_row row []) data'"
        using res(1) new(5) y ord Inr by auto
      have 4: "\<forall>db \<in> set (yielded tr). Database_tables db = []"
        using new(3) y by simp
      have 5: "printed tr =
           concat (map (\<lambda>db. printed (snd (Database_display (db\<lparr>Database_tables := []\<rparr>) 0 [])))
                       (yielded tr))"
        by (simp only: p y new(4) same)
      show ?thesis by (intro conjI 1 2 3 4 5 6)
    qed
  qed
qed

text \<open>The witness of C5: \<open>mixed_server\<close> with \<open>hide\<close>.\<close>

theorem hide_tables_no_fetch_witness:
  "''hide'' \<noteq> ''show''
   \<and> fst (fetch_and_display_all mixed_server ''pg'' ''name'' ''hide'' ''show'' ''show'' ''show'' [])
       = None
   \<and> yielded (snd (fetch_and_display_all mixed_server ''pg'' ''name'' ''hide'' ''show'' ''show''
                      ''show'' []))
       = [Database_of_row shop_row [], Database_of_row vault_row []]"
proof -
  define r where
    "r = fetch_and_display_all mixed_server ''pg'' ''name'' ''hide'' ''show'' ''show'' ''show'' []"
  have h1: "''hide'' \<noteq> ''show''" by simp
  have h2: "fetch_and_display_all mixed_server ''pg'' ''name'' ''hide'' ''show'' ''show'' ''show'' []
              = (fst r, snd r)"
    by (simp add: r_def)
  have e: "fst r = None"
    unfolding r_def
    by (simp add: run_defs display_defs mixed_server_def shop_row_def vault_row_def
          Size_human_8192 Size_human_1536)
  have o: "order_by_expression ''name'' = Inr ByName"
    by (simp add: order_by_expression_def)
  have d: "databases_result mixed_server (''pg'' @ ''/postgres'') ByName = Inr [shop_row, vault_row]"
    by (simp add: mixed_server_def)
  from hide_tables_no_fetch[OF h1 h2] e o d
  have "yielded (snd r) = map (\<lambda>row. Database_of_row row []) [shop_row, vault_row]"
    by blast
  with e h1 show ?thesis by (simp add: r_def)
qed

subsection \<open>C6: the fields of a table\<close>

text \<open>
  C6: for every list of column rows and every schema and table name, \<open>fetch_fields\<close>
  returns the rows whose schema and table equal the pair (equality of strings, so case
  matters), in their order in the list, each as a \<open>Field\<close> with description \<open>None\<close>. In
  \<open>orders_columns\<close> the row of table \<open>Orders\<close> is left out for table \<open>orders\<close>.
\<close>

theorem fetch_fields_filter_map:
  "fetch_fields prefetched_fields schema_name table_name =
     map (\<lambda>row. \<lparr>Field_name = col_name row,
                  Field_description = None,
                  Field_type = col_type row,
                  Field_default = col_default row,
                  Field_nullable = col_nullable row\<rparr>)
         (filter (\<lambda>row. col_schema_name row = schema_name \<and> col_table_name row = table_name)
                 prefetched_fields)
   \<and> map Field_name (fetch_fields orders_columns ''public'' ''orders'') = [''id'', ''note'']"
proof -
  have "fetch_fields rows s t =
     map (\<lambda>row. \<lparr>Field_name = col_name row,
                  Field_description = None,
                  Field_type = col_type row,
                  Field_default = col_default row,
                  Field_nullable = col_nullable row\<rparr>)
         (filter (\<lambda>row. col_schema_name row = s \<and> col_table_name row = t) rows)" for rows s t
    by (simp add: fetch_fields_def foldl_snoc_map)
  then show ?thesis by (simp add: orders_columns_def)
qed

subsection \<open>C7: views and indexes\<close>

text \<open>
  C7: the views and indexes options are accepted and have no effect. Two runs against the
  same server whose keyword arguments agree on the sort mode, the tables option, the
  fields option and the DSN, whatever their views and indexes options are, have the same
  outcome (the same exception, or none) and the same trace, so the same output.
\<close>

theorem views_indexes_inert:
  assumes "kw_sort a = kw_sort b" and "kw_tables a = kw_tables b"
    and "kw_fields a = kw_fields b" and "kw_dsn a = kw_dsn b"
  shows "main srv a = main srv b"
  using assms by (simp add: main_def fetch_and_display_all_def)

text \<open>
  The witness of C7: hiding views and indexes on \<open>mixed_server\<close> changes nothing, and the
  run is not rejected.
\<close>

theorem views_indexes_inert_witness:
  "main mixed_server (sample_kwargs\<lparr>kw_views := ''hide'', kw_indexes := ''hide''\<rparr>)
     = main mixed_server sample_kwargs
   \<and> fst (main mixed_server (sample_kwargs\<lparr>kw_views := ''hide'', kw_indexes := ''hide''\<rparr>)) = None"
proof -
  have "main mixed_server (sample_kwargs\<lparr>kw_views := ''hide'', kw_indexes := ''hide''\<rparr>)
          = main mixed_server sample_kwargs"
    by (rule views_indexes_inert) simp_all
  with main_mixed(1) show ?thesis by simp
qed

subsection \<open>C8: the nullable marker\<close>

text \<open>
  C8 as stated, for every \<open>Field\<close>, fails: names are printed as they are, and a column may
  be named \<open>(nullable)\<close>. Its line contains the marker although it is not nullable.
\<close>

theorem Field_display_marker_counterexample:
  "\<not> Field_nullable \<lparr>Field_name = ''(nullable)'', Field_description = None,
                       Field_type = ''integer'', Field_default = None, Field_nullable = False\<rparr>
   \<and> Field_display \<lparr>Field_name = ''(nullable)'', Field_description = None,
                     Field_type = ''integer'', Field_default = None, Field_nullable = False\<rparr> 0 []
       = [Print (bullet @ '' '' @ F_GREEN @ ''(nullable)'' @ F_RESET @ '' | integer'')]
   \<and> sublist ''(nullable)'' (bullet @ '' '' @ F_GREEN @ ''(nullable)'' @ F_RESET @ '' | integer'')"
proof -
  have "sublist ''(nullable)'' ((bullet @ '' '' @ F_GREEN) @ ''(nullable)'' @ (F_RESET @ '' | integer''))"
    by (rule sublist_appendI)
  then show ?thesis by (simp add: Field_display_line indent_def)
qed

text \<open>
  C8, amended: for every \<open>Field\<close> whose name and type do not themselves contain the text
  \<open>(nullable)\<close>, the line printed contains \<open>(nullable)\<close> if and only if the nullable flag is
  set.
\<close>

theorem Field_display_nullable_marker:
  assumes "\<not> sublist ''(nullable)'' (Field_name f)" and "\<not> sublist ''(nullable)'' (Field_type f)"
  shows "\<exists>line. Field_display f ident tr = tr @ [Print line]
            \<and> (sublist ''(nullable)'' line \<longleftrightarrow> Field_nullable f)"
proof -
  define P where "P = indent ident @ bullet @ '' '' @ F_GREEN"
  define Q where "Q = F_RESET @ '' | ''"
  have P: "P \<noteq> []" "set P \<inter> set ''(nullable)'' = {}"
    using set_indent[of ident] by (auto simp: P_def bullet_def F_GREEN_def)
  have Q: "Q \<noteq> []" "set Q \<inter> set ''(nullable)'' = {}"
    by (auto simp: Q_def F_RESET_def)
  have plain: "\<not> sublist ''(nullable)'' (P @ Field_name f @ Q @ Field_type f)"
    using sublist_across_sep[OF P, of "[]" "Field_name f @ Q @ Field_type f"]
          sublist_across_sep[OF Q, of "Field_name f" "Field_type f"] assms
    by simp
  show ?thesis
  proof (cases "Field_nullable f")
    case True
    have "sublist ''(nullable)''
            ((P @ Field_name f @ Q @ Field_type f @ '' '' @ F_RED) @ ''(nullable)'' @ F_RESET)"
      by (rule sublist_appendI)
    with True show ?thesis
      by (intro exI[of _ "P @ Field_name f @ Q @ Field_type f @ '' '' @ F_RED @ ''(nullable)'' @ F_RESET"])
         (simp add: Field_display_line P_def Q_def)
  next
    case False
    with plain show ?thesis
      by (intro exI[of _ "P @ Field_name f @ Q @ Field_type f"])
         (simp add: Field_display_line P_def Q_def)
  qed
qed

text \<open>The witness of C8: a nullable column \<open>note\<close> of type \<open>text\<close>.\<close>

theorem Field_display_nullable_marker_witness:
  "\<not> sublist ''(nullable)'' ''note'' \<and> \<not> sublist ''(nullable)'' ''text''
   \<and> (\<exists>line. Field_display \<lparr>Field_name = ''note'', Field_description = None, Field_type = ''text'',
                               Field_default = None, Field_nullable = True\<rparr> 1 []
                = [Print line]
            \<and> sublist ''(nullable)'' line)"
proof -
  have h: "\<not> sublist ''(nullable)'' ''note''" "\<not> sublist ''(nullable)'' ''text''"
    by (simp_all add: sublist_Cons_right)
  show ?thesis
    using h Field_display_nullable_marker[of "\<lparr>Field_name = ''note'', Field_description = None,
        Field_type = ''text'', Field_default = None, Field_nullable = True\<rparr>" 1 "[]"]
    by simp
qed

subsection \<open>C9: rounding after the unit is chosen\<close>

text \<open>
  C9: the unit is chosen before rounding, so a value just below a threshold is shown as the
  full quantity of the smaller unit: every size from \<open>1024 ^ 2 - 512\<close> up to \<open>1024 ^ 2 - 1\<close>
  bytes is \<open>1024 KiB\<close>, not \<open>1 MiB\<close>, and every count from \<open>1000 ^ 2 - 500\<close> up to
  \<open>1000 ^ 2 - 1\<close> rows is \<open>1000k rows\<close>, not \<open>1kk rows\<close>; in particular
  \<open>1024 ^ 2 - 1\<close> and \<open>1000 ^ 2 - 1\<close>.
\<close>

theorem rounding_after_unit_selection:
  "(\<forall>n. 1024 ^ 2 - 512 \<le> n \<and> n < 1024 ^ 2 \<longrightarrow> Size_human \<lparr>bytes = n\<rparr> = Inr ''1024 KiB'')
   \<and> (\<forall>n. 1000 ^ 2 - 500 \<le> n \<and> n < 1000 ^ 2 \<longrightarrow> Count_human \<lparr>count = n\<rparr> = Inr ''1000k rows'')
   \<and> Size_human \<lparr>bytes = 1024 ^ 2 - 1\<rparr> = Inr ''1024 KiB''
   \<and> Count_human \<lparr>count = 1000 ^ 2 - 1\<rparr> = Inr ''1000k rows''"
  using Size_human_just_below_MiB Count_human_just_below_million Size_human_below_MiB Count_human_below_million by blast

text \<open>The witness of C9, at the lower end of both ranges, where the quotient is a tie.\<close>

theorem rounding_after_unit_selection_witness:
  "(1024 ^ 2 - 512 :: int) \<le> 1048064 \<and> (1048064 :: int) < 1024 ^ 2
   \<and> Size_human \<lparr>bytes = 1048064\<rparr> = Inr ''1024 KiB''
   \<and> (1000 ^ 2 - 500 :: int) \<le> 999500 \<and> (999500 :: int) < 1000 ^ 2
   \<and> Count_human \<lparr>count = 999500\<rparr> = Inr ''1000k rows''"
proof -
  have h1: "(1024 ^ 2 - 512 :: int) \<le> 1048064 \<and> (1048064 :: int) < 1024 ^ 2" by simp
  have h2: "(1000 ^ 2 - 500 :: int) \<le> 999500 \<and> (999500 :: int) < 1000 ^ 2" by simp
  from rounding_after_unit_selection h1 have a: "Size_human \<lparr>bytes = 1048064\<rparr> = Inr ''1024 KiB''"
    by blast
  from rounding_after_unit_selection h2 have b: "Count_human \<lparr>count = 999500\<rparr> = Inr ''1000k rows''"
    by blast
  from a b h1 h2 show ?thesis by blast
qed

subsection \<open>C10: counts below the first threshold\<close>

text \<open>
  C10 as stated, for every \<open>n < 1000\<close>, fails: the count passes through a float also when
  it is divided by one. \<open>- (2 ^ 53 + 1)\<close> is not a float; it is shown as \<open>- (2 ^ 53)\<close>.
\<close>

theorem Count_human_negative_counterexample:
  "(- 9007199254740993 :: int) < 1000
   \<and> Count_human \<lparr>count = - 9007199254740993\<rparr> = Inr ''-9007199254740992 rows''
   \<and> str_int (- 9007199254740993) @ '' rows'' = ''-9007199254740993 rows''"
  using Count_human_beyond_2_53 by (simp add: str_eval)

text \<open>
  C10, amended: for every \<open>n\<close> with \<open>- (2 ^ 53) \<le> n < 1000\<close>, negative ones included, the
  row-count formatter returns the digits of \<open>n\<close> followed by \<open> rows\<close>, and does not fail;
  \<open>-1\<close> gives \<open>-1 rows\<close>.
\<close>

theorem Count_human_below_1000:
  "(\<forall>n. - (2 ^ 53) \<le> n \<and> n < 1000 \<longrightarrow> Count_human \<lparr>count = n\<rparr> = Inr (str_int n @ '' rows''))
   \<and> Count_human \<lparr>count = - 1\<rparr> = Inr ''-1 rows''"
  using Count_human_small Count_human_minus_1 by blast

text \<open>The witness of C10.\<close>

theorem Count_human_below_1000_witness:
  "- (2 ^ 53) \<le> (- 42 :: int) \<and> (- 42 :: int) < 1000
   \<and> Count_human \<lparr>count = - 42\<rparr> = Inr ''-42 rows''"
proof -
  have h: "- (2 ^ 53) \<le> (- 42 :: int) \<and> (- 42 :: int) < 1000" by simp
  with Count_human_below_1000 have "Count_human \<lparr>count = - 42\<rparr> = Inr (str_int (- 42) @ '' rows'')"
    by blast
  with h show ?thesis by (simp add: str_eval)
qed

end
